theory Spec2Isabelle
  imports Main "HOL-Library.Signed_Division"
begin

section \<open>Net and Serial Monitor: shared state\<close>

text \<open>
  \<^verbatim>\<open>enum class ProbeState : int { Unknown = -1, Fail = 0, Ok = 1 };\<close> (main.cpp, line 39).
\<close>

datatype ProbeState = Unknown | Fail | Ok

text \<open>
  \<^verbatim>\<open>struct AppState\<close> (lines 42-46): two atomic probe cells and the atomic running
  flag. Every access of the program is an atomic \<^verbatim>\<open>load\<close> or \<^verbatim>\<open>store\<close> of one field.
\<close>

record AppState =
  network :: ProbeState
  serial :: ProbeState
  running :: bool

text \<open>The default member initialisers of lines 43-45.\<close>

definition AppState_init :: AppState where
  "AppState_init = \<lparr>network = Unknown, serial = Unknown, running = True\<rparr>"

section \<open>Path resolution\<close>

text \<open>
  What \<^verbatim>\<open>resolve_path\<close> reads from the process environment: the value of
  \<^verbatim>\<open>getenv("PATH")\<close> (\<open>None\<close> for a null pointer) and, for every path, whether
  \<^verbatim>\<open>access(path, X_OK) == 0\<close>.
\<close>

record world =
  getenv_PATH :: "string option"
  access_X_OK :: "string \<Rightarrow> bool"

text \<open>
  \<^verbatim>\<open>std::getline(ss, dir, ':')\<close> on a string stream whose unread part is \<open>ss\<close>: at the
  end of the stream nothing is extracted and the call fails (\<open>None\<close>); otherwise the
  characters before the next \<^verbatim>\<open>':'\<close> are extracted and the delimiter is consumed.
\<close>

definition getline :: "string \<Rightarrow> (string \<times> string) option" where
  "getline ss =
     (if ss = [] then None
      else Some (takeWhile (\<lambda>c. c \<noteq> CHR '':'') ss,
                 drop 1 (dropWhile (\<lambda>c. c \<noteq> CHR '':'') ss)))"

text \<open>
  The \<^verbatim>\<open>while (std::getline(ss, dir, ':'))\<close> loop of lines 55-62. \<open>Some candidate\<close>
  is the \<^verbatim>\<open>return path\<close> of line 60; \<open>None\<close> is the loop running to the end of the
  stream. The loop terminates because every \<^verbatim>\<open>getline\<close> that succeeds shortens the
  unread part of the stream.
\<close>

function path_loop :: "(string \<Rightarrow> bool) \<Rightarrow> string \<Rightarrow> string \<Rightarrow> string option" where
  "path_loop acc script ss =
     (case getline ss of
        None \<Rightarrow> None
      | Some (dir, rest) \<Rightarrow>
          if dir = [] then path_loop acc script rest
          else let candidate = dir @ ''/'' @ script in
            if acc candidate then Some candidate
            else path_loop acc script rest)"
  by pat_completeness auto
termination
proof (relation "measure (\<lambda>(acc, script, ss). length ss)")
  show "wf (measure (\<lambda>(acc, script, ss). length ss))" by simp
next
  fix acc :: "string \<Rightarrow> bool" and script ss x2 dir rest :: string
    and x :: "string \<times> string"
  assume "getline ss = Some x" and "(dir, rest) = x"
  then have g: "getline ss = Some (dir, rest)" by simp
  then have ne: "ss \<noteq> []" and r: "rest = drop 1 (dropWhile (\<lambda>c. c \<noteq> CHR '':'') ss)"
    by (auto simp: getline_def split: if_splits)
  have "length (dropWhile (\<lambda>c. c \<noteq> CHR '':'') ss) \<le> length ss"
    by (rule length_dropWhile_le)
  with ne r have shorter: "length rest < length ss"
    by (cases "dropWhile (\<lambda>c. c \<noteq> CHR '':'') ss") (auto simp: neq_Nil_conv)
  show "((acc, script, rest), (acc, script, ss)) \<in> measure (\<lambda>(acc, script, ss). length ss)"
    using shorter by simp
  show "((acc, script, rest), (acc, script, ss)) \<in> measure (\<lambda>(acc, script, ss). length ss)"
    using shorter by simp
qed

declare path_loop.simps [simp del]

text \<open>The array \<^verbatim>\<open>fallbacks\<close> of line 64, up to its null terminator.\<close>

definition fallbacks :: "string list" where
  "fallbacks = [''/usr/local/bin'', ''/usr/bin'']"

text \<open>The \<^verbatim>\<open>for\<close> loop of lines 65-71 over the remaining entries of \<^verbatim>\<open>fallbacks\<close>.\<close>

fun fallback_loop :: "(string \<Rightarrow> bool) \<Rightarrow> string \<Rightarrow> string list \<Rightarrow> string option" where
  "fallback_loop acc script [] = None"
| "fallback_loop acc script (fb # fbs) =
     (let candidate = fb @ ''/'' @ script in
      if acc candidate then Some candidate
      else fallback_loop acc script fbs)"

text \<open>\<^verbatim>\<open>resolve_path\<close> (lines 49-74). The empty string is the not-found result of line 72.\<close>

definition resolve_path :: "world \<Rightarrow> string \<Rightarrow> string" where
  "resolve_path wld script =
     (case (case getenv_PATH wld of
              Some sp \<Rightarrow> path_loop (access_X_OK wld) script sp
            | None \<Rightarrow> None) of
        Some path \<Rightarrow> path
      | None \<Rightarrow>
          (case fallback_loop (access_X_OK wld) script fallbacks of
             Some path \<Rightarrow> path
           | None \<Rightarrow> []))"


section \<open>Atomic accesses and external calls\<close>

text \<open>
  The program touches \<^verbatim>\<open>AppState\<close> only through \<^verbatim>\<open>load()\<close> and \<^verbatim>\<open>store()\<close> of its
  three atomics, and the outside world through \<^verbatim>\<open>std::system\<close> and
  \<^verbatim>\<open>std::this_thread::sleep_for\<close>. Each such operation is an event; a thread's code
  passes along the shared state together with the trace of the events it performed.
\<close>

datatype event =
    LoadNetwork | LoadSerial | LoadRunning
  | StoreNetwork ProbeState | StoreSerial ProbeState | StoreRunning bool
  | System string int
  | SleepFor nat

record machine =
  app :: AppState
  trace :: "event list"

definition network_load :: "machine \<Rightarrow> ProbeState \<times> machine" where
  "network_load m = (network (app m), m\<lparr>trace := trace m @ [LoadNetwork]\<rparr>)"

definition serial_load :: "machine \<Rightarrow> ProbeState \<times> machine" where
  "serial_load m = (serial (app m), m\<lparr>trace := trace m @ [LoadSerial]\<rparr>)"

definition running_load :: "machine \<Rightarrow> bool \<times> machine" where
  "running_load m = (running (app m), m\<lparr>trace := trace m @ [LoadRunning]\<rparr>)"

definition network_store :: "ProbeState \<Rightarrow> machine \<Rightarrow> machine" where
  "network_store v m = m\<lparr>app := (app m)\<lparr>network := v\<rparr>, trace := trace m @ [StoreNetwork v]\<rparr>"

definition serial_store :: "ProbeState \<Rightarrow> machine \<Rightarrow> machine" where
  "serial_store v m = m\<lparr>app := (app m)\<lparr>serial := v\<rparr>, trace := trace m @ [StoreSerial v]\<rparr>"

definition running_store :: "bool \<Rightarrow> machine \<Rightarrow> machine" where
  "running_store v m = m\<lparr>app := (app m)\<lparr>running := v\<rparr>, trace := trace m @ [StoreRunning v]\<rparr>"

text \<open>
  \<^verbatim>\<open>std::system(cmd)\<close>: \<open>sys\<close> is what the call returns for a command line at the
  moment it is made (the wait status of the shell, or \<open>-1\<close> when the shell could not
  be launched).
\<close>

definition std_system :: "(string \<Rightarrow> int) \<Rightarrow> string \<Rightarrow> machine \<Rightarrow> int \<times> machine" where
  "std_system sys cmd m = (sys cmd, m\<lparr>trace := trace m @ [System cmd (sys cmd)]\<rparr>)"

text \<open>\<^verbatim>\<open>std::this_thread::sleep_for\<close>, the duration in milliseconds.\<close>

definition sleep_for :: "nat \<Rightarrow> machine \<Rightarrow> machine" where
  "sleep_for ms m = m\<lparr>trace := trace m @ [SleepFor ms]\<rparr>"

text \<open>\<^verbatim>\<open>run_command_success\<close> (lines 77-83).\<close>

definition run_command_success ::
  "(string \<Rightarrow> int) \<Rightarrow> string \<Rightarrow> machine \<Rightarrow> ProbeState \<times> machine" where
  "run_command_success sys cmd m =
     (let (rc, m) = std_system sys cmd m
      in (if rc = 0 then Ok else Fail, m))"

section \<open>The status panel\<close>

text \<open>
  FLTK is not part of the repository. Its colours are kept symbolic: the named constants
  the source uses and \<^verbatim>\<open>fl_rgb_color(r, g, b)\<close>; its drawing functions are recorded as
  the calls \<^verbatim>\<open>draw\<close> makes, in order.

  Widget geometry and pixel coordinates are C++ \<^verbatim>\<open>int\<close>s of 32 bits. They are modelled
  as integers in the range \<open>INT_MIN..INT_MAX\<close>: every sum, difference and product is
  reduced to that range by \<open>int32\<close>, the two's complement wrap-around of the machines
  the program is built for, and division is the truncating division of C++ (\<open>sdiv\<close>;
  dividing by 3 or by 2 cannot leave the range).
\<close>

definition INT_MIN :: int where
  "INT_MIN = - 2147483648"

definition INT_MAX :: int where
  "INT_MAX = 2147483647"

definition int32 :: "int \<Rightarrow> int" where
  "int32 v = (v + 2147483648) mod 4294967296 - 2147483648"

datatype Fl_Color = FL_GREEN | FL_RED | FL_BLACK | FL_DARK3 | fl_rgb_color nat nat nat

datatype Fl_Font = FL_HELVETICA

datatype fl_call =
    fl_color Fl_Color
  | fl_pie int int int int nat nat
  | fl_arc int int int int nat nat
  | fl_font Fl_Font nat
  | fl_draw string int int

text \<open>The geometry \<^verbatim>\<open>x()\<close>, \<^verbatim>\<open>y()\<close>, \<^verbatim>\<open>w()\<close>, \<^verbatim>\<open>h()\<close> of the \<^verbatim>\<open>Fl_Widget\<close> base.\<close>

record widget =
  widget_x :: int
  widget_y :: int
  widget_w :: int
  widget_h :: int

text \<open>\<^verbatim>\<open>StatusPanel::color_for\<close> (lines 94-101).\<close>

fun color_for :: "ProbeState \<Rightarrow> Fl_Color" where
  "color_for Ok = FL_GREEN"
| "color_for Fail = FL_RED"
| "color_for Unknown = fl_rgb_color 128 128 128"

text \<open>\<^verbatim>\<open>StatusPanel::draw_circle\<close> (lines 103-109).\<close>

definition draw_circle :: "int \<Rightarrow> int \<Rightarrow> int \<Rightarrow> Fl_Color \<Rightarrow> fl_call list" where
  "draw_circle cx cy d fill =
     [fl_color fill, fl_pie cx cy d d 0 360, fl_color FL_DARK3, fl_arc cx cy d d 0 360]"

text \<open>
  \<^verbatim>\<open>StatusPanel::draw_caption_centered\<close> (lines 111-119). \<open>fm\<close> gives the width and
  height that \<^verbatim>\<open>fl_measure\<close> reports for a string in the current font.
\<close>

definition draw_caption_centered ::
  "(string \<Rightarrow> int \<times> int) \<Rightarrow> int \<Rightarrow> int \<Rightarrow> int \<Rightarrow> string \<Rightarrow> fl_call list" where
  "draw_caption_centered fm x0 y0 w0 s =
     (let (tw, th) = fm s;
          tx = int32 (x0 + int32 (w0 - tw) sdiv 2);
          ty = int32 (y0 + th)
      in [fl_font FL_HELVETICA 12, fl_color FL_BLACK, fl_draw s tx ty])"

text \<open>\<^verbatim>\<open>StatusPanel::draw\<close> (lines 121-157).\<close>

definition draw ::
  "(string \<Rightarrow> int \<times> int) \<Rightarrow> widget \<Rightarrow> machine \<Rightarrow> fl_call list \<times> machine" where
  "draw fm wd m =
     (let margin = 10;
          available = int32 (widget_w wd - int32 (margin * 2));
          d = int32 (available sdiv 3 - 10);
          d = (if d > 100 then 100 else d);
          d = (if d < 60 then 60 else d);
          gap = int32 (available - int32 (3 * d)) sdiv 2;
          top = int32 (widget_y wd + 10);
          left = int32 (widget_x wd + margin);
          circleY = top;
          captionY = int32 (int32 (circleY + d) + 8);
          (p, m) = network_load m;
          c0 = color_for p;
          (q, m) = serial_load m;
          c1 = color_for q;
          c2 = fl_rgb_color 128 128 128;
          x0 = left;
          x1 = int32 (int32 (left + d) + gap);
          x2 = int32 (left + int32 (2 * int32 (d + gap)))
      in (draw_circle x0 circleY d c0 @
          draw_circle x1 circleY d c1 @
          draw_circle x2 circleY d c2 @
          draw_caption_centered fm x0 captionY d ''network'' @
          draw_caption_centered fm x1 captionY d ''serial'',
          m))"

section \<open>The status line\<close>

text \<open>The lambda \<^verbatim>\<open>to_str\<close> of lines 165-172.\<close>

fun to_str :: "ProbeState \<Rightarrow> string" where
  "to_str Ok = ''OK''"
| "to_str Fail = ''down''"
| "to_str Unknown = ''unknown''"

text \<open>
  \<^verbatim>\<open>std::snprintf(buf, n, "network=%s, serial=%s", a, b)\<close>: the buffer receives the
  formatted text cut to \<open>n - 1\<close> characters (and the terminating zero).
\<close>

definition snprintf_status :: "nat \<Rightarrow> string \<Rightarrow> string \<Rightarrow> string" where
  "snprintf_status n a b = take (n - 1) (''network='' @ a @ '', serial='' @ b)"

text \<open>\<^verbatim>\<open>make_status_line\<close> (lines 161-177).\<close>

definition make_status_line :: "machine \<Rightarrow> string \<times> machine" where
  "make_status_line m =
     (let (p, m) = network_load m;
          (q, m) = serial_load m;
          buf = snprintf_status 128 (to_str p) (to_str q)
      in (buf, m))"

section \<open>The worker threads\<close>

text \<open>
  A worker is run one step at a time, so that the steps of the two workers and of the UI
  thread interleave. Its control points:
  \<^item> \<open>Entry\<close>: the thread has not started (before line 181, resp. 199);
  \<^item> \<open>While cmd\<close>: at the loop condition \<^verbatim>\<open>while (s->running.load())\<close>;
  \<^item> \<open>Body cmd\<close>: the condition held, the probe is about to be invoked and its
    result stored (line 191, resp. 209);
  \<^item> \<open>For cmd i\<close>: at the condition \<^verbatim>\<open>i < 40 && s->running.load()\<close> of the sleep loop;
  \<^item> \<open>Exited\<close>: the function has returned.

  A step runs the code from one control point to the next. Its inputs are the world
  (read when the script is resolved) and \<open>sys\<close>, what \<^verbatim>\<open>std::system\<close> returns if the
  step calls it.
\<close>

datatype worker_pc = Entry | While string | Body string | For string nat | Exited

text \<open>
  The command line of lines 188 and 206:
  \<^verbatim>\<open>"'" + script + "' >/dev/null 2>&1"\<close>.
\<close>

definition quiet_cmd :: "string \<Rightarrow> string" where
  "quiet_cmd script = [CHR 0x27] @ script @ [CHR 0x27] @ '' >/dev/null 2>&1''"

text \<open>\<^verbatim>\<open>network_worker\<close> (lines 180-195).\<close>

fun network_worker_step ::
  "world \<Rightarrow> (string \<Rightarrow> int) \<Rightarrow> worker_pc \<Rightarrow> machine \<Rightarrow> worker_pc \<times> machine" where
  "network_worker_step wld sys Entry m =
     (let script = resolve_path wld ''test_network.sh'' in
      if script = [] then (Exited, serial_store Unknown m)
      else (While (quiet_cmd script), m))"
| "network_worker_step wld sys (While cmd) m =
     (let (r, m) = running_load m in
      if r then (Body cmd, m) else (Exited, m))"
| "network_worker_step wld sys (Body cmd) m =
     (let (st, m) = run_command_success sys cmd m in
      (For cmd 0, network_store st m))"
| "network_worker_step wld sys (For cmd i) m =
     (if i < 40 then
        (let (r, m) = running_load m in
         if r then (For cmd (i + 1), sleep_for 50 m) else (While cmd, m))
      else (While cmd, m))"
| "network_worker_step wld sys Exited m = (Exited, m)"

text \<open>\<^verbatim>\<open>serial_worker\<close> (lines 197-212).\<close>

fun serial_worker_step ::
  "world \<Rightarrow> (string \<Rightarrow> int) \<Rightarrow> worker_pc \<Rightarrow> machine \<Rightarrow> worker_pc \<times> machine" where
  "serial_worker_step wld sys Entry m =
     (let script = resolve_path wld ''test_serial.sh'' in
      if script = [] then (Exited, serial_store Unknown m)
      else (While (quiet_cmd script), m))"
| "serial_worker_step wld sys (While cmd) m =
     (let (r, m) = running_load m in
      if r then (Body cmd, m) else (Exited, m))"
| "serial_worker_step wld sys (Body cmd) m =
     (let (st, m) = run_command_success sys cmd m in
      (For cmd 0, serial_store st m))"
| "serial_worker_step wld sys (For cmd i) m =
     (if i < 40 then
        (let (r, m) = running_load m in
         if r then (For cmd (i + 1), sleep_for 50 m) else (While cmd, m))
      else (While cmd, m))"
| "serial_worker_step wld sys Exited m = (Exited, m)"

section \<open>The UI thread and the whole program\<close>

text \<open>
  \<^verbatim>\<open>ui_timer_cb\<close> (lines 221-230): the status line is composed and becomes the label of
  the status box, and the panel is asked to redraw, upon which FLTK calls its
  \<^verbatim>\<open>draw\<close> on the same thread. The result is the new label and the drawing calls.
  The guard of line 223 holds throughout: \<^verbatim>\<open>main\<close> sets the three pointers (line 281).
\<close>

definition ui_timer_cb ::
  "(string \<Rightarrow> int \<times> int) \<Rightarrow> widget \<Rightarrow> machine \<Rightarrow> (string \<times> fl_call list) \<times> machine" where
  "ui_timer_cb fm wd m =
     (let (line, m) = make_status_line m;
          (calls, m) = draw fm wd m
      in ((line, calls), m))"

text \<open>
  The callbacks of the exit button and of the window (lines 253-271), and line 288 of
  \<^verbatim>\<open>main\<close>: \<^verbatim>\<open>running.store(false)\<close>.
\<close>

definition request_exit :: "machine \<Rightarrow> machine" where
  "request_exit m = running_store False m"

text \<open>
  The panel \<^verbatim>\<open>main\<close> creates (line 241), with \<^verbatim>\<open>W = 320\<close>:
  \<^verbatim>\<open>StatusPanel panel(10, 10, W - 20, 160, &state)\<close>.
\<close>

definition main_panel :: widget where
  "main_panel = \<lparr>widget_x = 10, widget_y = 10, widget_w = 320 - 20, widget_h = 160\<rparr>"

text \<open>
  The running program: the shared state, the control point of each worker thread, and
  what the window shows. \<^verbatim>\<open>main\<close> starts with the label of line 247 and both workers
  at their entry.
\<close>

record config =
  shared :: AppState
  net_pc :: worker_pc
  ser_pc :: worker_pc
  status_label :: string
  panel :: "fl_call list"

definition config_init :: config where
  "config_init =
     \<lparr>shared = AppState_init, net_pc = Entry, ser_pc = Entry,
      status_label = ''network=unknown, serial=unknown'', panel = []\<rparr>"

text \<open>
  What can happen next: one of the workers runs one step (with what
  \<^verbatim>\<open>std::system\<close> returns, should the step call it), the refresh timer fires, or the
  user asks to exit. An execution is any sequence of these; the events of a step are
  tagged with the thread that performed them.
\<close>

datatype thread = NetworkThread | SerialThread | UiThread

datatype action =
    NetworkStep "string \<Rightarrow> int"
  | SerialStep "string \<Rightarrow> int"
  | UiTimer
  | ExitRequest

fun step ::
  "world \<Rightarrow> (string \<Rightarrow> int \<times> int) \<Rightarrow> action \<Rightarrow> config \<Rightarrow> (thread \<times> event) list \<times> config" where
  "step wld fm (NetworkStep sys) c =
     (let (pc, m) = network_worker_step wld sys (net_pc c) \<lparr>app = shared c, trace = []\<rparr>
      in (map (Pair NetworkThread) (trace m), c\<lparr>shared := app m, net_pc := pc\<rparr>))"
| "step wld fm (SerialStep sys) c =
     (let (pc, m) = serial_worker_step wld sys (ser_pc c) \<lparr>app = shared c, trace = []\<rparr>
      in (map (Pair SerialThread) (trace m), c\<lparr>shared := app m, ser_pc := pc\<rparr>))"
| "step wld fm UiTimer c =
     (let ((line, calls), m) = ui_timer_cb fm main_panel \<lparr>app = shared c, trace = []\<rparr>
      in (map (Pair UiThread) (trace m),
          c\<lparr>shared := app m, status_label := line, panel := calls\<rparr>))"
| "step wld fm ExitRequest c =
     (let m = request_exit \<lparr>app = shared c, trace = []\<rparr>
      in (map (Pair UiThread) (trace m), c\<lparr>shared := app m\<rparr>))"

fun exec ::
  "world \<Rightarrow> (string \<Rightarrow> int \<times> int) \<Rightarrow> action list \<Rightarrow> config \<Rightarrow> (thread \<times> event) list \<times> config" where
  "exec wld fm [] c = ([], c)"
| "exec wld fm (a # as) c =
     (let (evs, c') = step wld fm a c;
          (evs', c'') = exec wld fm as c'
      in (evs @ evs', c''))"

text \<open>One worker running on its own for a number of steps, as \<open>exec\<close> would run it.\<close>

fun network_worker_steps ::
  "world \<Rightarrow> (string \<Rightarrow> int) list \<Rightarrow> worker_pc \<times> machine \<Rightarrow> worker_pc \<times> machine" where
  "network_worker_steps wld [] pm = pm"
| "network_worker_steps wld (sys # syss) pm =
     network_worker_steps wld syss (network_worker_step wld sys (fst pm) (snd pm))"

fun serial_worker_steps ::
  "world \<Rightarrow> (string \<Rightarrow> int) list \<Rightarrow> worker_pc \<times> machine \<Rightarrow> worker_pc \<times> machine" where
  "serial_worker_steps wld [] pm = pm"
| "serial_worker_steps wld (sys # syss) pm =
     serial_worker_steps wld syss (serial_worker_step wld sys (fst pm) (snd pm))"

section \<open>Notions of the specification\<close>

text \<open>
  The directories listed in a search-path value: the text between its colons.
\<close>

fun split_colon :: "string \<Rightarrow> string list" where
  "split_colon [] = [[]]"
| "split_colon (c # cs) =
     (if c = CHR '':'' then [] # split_colon cs
      else case split_colon cs of
             seg # segs \<Rightarrow> (c # seg) # segs
           | [] \<Rightarrow> [[c]])"

text \<open>
  The searched locations, in the order of the specification: the (non-empty) directories
  of the search-path variable as listed, then the fixed fallback directories.
\<close>

definition searched_dirs :: "world \<Rightarrow> string list" where
  "searched_dirs wld =
     (case getenv_PATH wld of
        None \<Rightarrow> []
      | Some sp \<Rightarrow> filter (\<lambda>dir. dir \<noteq> []) (split_colon sp)) @ fallbacks"

text \<open>A directory contains an executable file of the given name.\<close>

definition contains_executable :: "world \<Rightarrow> string \<Rightarrow> string \<Rightarrow> bool" where
  "contains_executable wld script dir = access_X_OK wld (dir @ ''/'' @ script)"

text \<open>The placeholder text of the status line for a probe state.\<close>

definition placeholder :: "ProbeState \<Rightarrow> string" where
  "placeholder v = (case v of Ok \<Rightarrow> ''OK'' | Fail \<Rightarrow> ''down'' | Unknown \<Rightarrow> ''unknown'')"

text \<open>
  What a sequence of drawing calls paints as filled circles: the bounding box of every
  \<^verbatim>\<open>fl_pie\<close> and the colour that is current when it is drawn.
\<close>

fun circles_from :: "Fl_Color option \<Rightarrow> fl_call list \<Rightarrow> ((int \<times> int \<times> int \<times> int) \<times> Fl_Color option) list" where
  "circles_from cur [] = []"
| "circles_from cur (fl_color c # calls) = circles_from (Some c) calls"
| "circles_from cur (fl_pie px py pw ph a1 a2 # calls) =
     ((px, py, pw, ph), cur) # circles_from cur calls"
| "circles_from cur (call # calls) = circles_from cur calls"

definition circles :: "fl_call list \<Rightarrow> ((int \<times> int \<times> int \<times> int) \<times> Fl_Color option) list" where
  "circles calls = circles_from None calls"

text \<open>
  A circle lies inside the panel width when its bounding box does; the gap between two
  circles is the distance from the right edge of the first to the left edge of the
  second (negative when they overlap).
\<close>

definition inside_panel :: "widget \<Rightarrow> int \<times> int \<times> int \<times> int \<Rightarrow> bool" where
  "inside_panel wd box =
     (case box of (px, py, pw, ph) \<Rightarrow>
        widget_x wd \<le> px \<and> px + pw \<le> widget_x wd + widget_w wd)"

definition gap_between :: "int \<times> int \<times> int \<times> int \<Rightarrow> int \<times> int \<times> int \<times> int \<Rightarrow> int" where
  "gap_between a b =
     (case a of (ax, ay, aw, ah) \<Rightarrow> case b of (bx, by, bw, bh) \<Rightarrow> bx - (ax + aw))"

text \<open>
  A panel is representable when its width is not negative and the \<^verbatim>\<open>int\<close> coordinates
  hold its horizontal extent, 70 pixels to the left of it and 130 pixels from its left
  edge on: then no coordinate that \<^verbatim>\<open>draw\<close> computes overflows.
\<close>

definition panel_representable :: "widget \<Rightarrow> bool" where
  "panel_representable wd \<longleftrightarrow>
     0 \<le> widget_w wd \<and> widget_w wd \<le> INT_MAX
     \<and> INT_MIN + 70 \<le> widget_x wd \<and> widget_x wd + 130 \<le> INT_MAX
     \<and> widget_x wd + widget_w wd \<le> INT_MAX"

text \<open>
  The events of a sleep of \<open>n\<close> increments: each increment is a load of the running
  flag followed by a sleep of 50 ms. \<open>slept\<close> is the time slept in a sequence of events.
\<close>

definition sleep_increments :: "nat \<Rightarrow> event list" where
  "sleep_increments n = concat (replicate n [LoadRunning, SleepFor 50])"

fun slept :: "event list \<Rightarrow> nat" where
  "slept [] = 0"
| "slept (SleepFor ms # evs) = ms + slept evs"
| "slept (ev # evs) = slept evs"

text \<open>
  Counting in an execution: the probe invocations and the sleeps of a thread, and the
  steps a thread is given. A worker at \<open>Body\<close> has passed the loop condition for
  an invocation that is not finished: it has one invocation in flight.
\<close>

fun is_invocation :: "event \<Rightarrow> bool" where
  "is_invocation (System cmd rc) = True"
| "is_invocation ev = False"

fun is_sleep :: "event \<Rightarrow> bool" where
  "is_sleep (SleepFor ms) = True"
| "is_sleep ev = False"

definition events_of :: "thread \<Rightarrow> (thread \<times> event) list \<Rightarrow> event list" where
  "events_of th evs = map snd (filter (\<lambda>e. fst e = th) evs)"

definition invocations :: "thread \<Rightarrow> (thread \<times> event) list \<Rightarrow> nat" where
  "invocations th evs = length (filter is_invocation (events_of th evs))"

definition sleeps :: "thread \<Rightarrow> (thread \<times> event) list \<Rightarrow> nat" where
  "sleeps th evs = length (filter is_sleep (events_of th evs))"

fun steps_of :: "thread \<Rightarrow> action list \<Rightarrow> nat" where
  "steps_of th [] = 0"
| "steps_of th (NetworkStep sys # as) = (if th = NetworkThread then 1 else 0) + steps_of th as"
| "steps_of th (SerialStep sys # as) = (if th = SerialThread then 1 else 0) + steps_of th as"
| "steps_of th (a # as) = steps_of th as"

definition in_flight :: "worker_pc \<Rightarrow> nat" where
  "in_flight pc = (case pc of Body cmd \<Rightarrow> 1 | _ \<Rightarrow> 0)"

subsection \<open>Concrete environments\<close>

text \<open>
  A machine on which both probe scripts are installed in \<^verbatim>\<open>/opt/monitor\<close>, and one on
  which only \<^verbatim>\<open>test_serial.sh\<close> is. \<open>always rc\<close> is a \<^verbatim>\<open>std::system\<close> that returns
  \<open>rc\<close> for every command; \<open>no_text\<close> is an \<^verbatim>\<open>fl_measure\<close> that measures every string
  as empty.
\<close>

definition world_both :: world where
  "world_both =
     \<lparr>getenv_PATH = Some ''/opt/monitor'',
      access_X_OK = (\<lambda>p. p = ''/opt/monitor/test_network.sh''
                         \<or> p = ''/opt/monitor/test_serial.sh'')\<rparr>"

definition world_serial_only :: world where
  "world_serial_only =
     \<lparr>getenv_PATH = Some ''/opt/monitor'',
      access_X_OK = (\<lambda>p. p = ''/opt/monitor/test_serial.sh'')\<rparr>"

definition always :: "int \<Rightarrow> string \<Rightarrow> int" where
  "always rc cmd = rc"

definition no_text :: "string \<Rightarrow> int \<times> int" where
  "no_text s = (0, 0)"

subsection \<open>Auxiliary notions of the proofs\<close>

text \<open>The first candidate path, in the order of a list of directories, that is accessible.\<close>

definition first_hit :: "(string \<Rightarrow> bool) \<Rightarrow> string \<Rightarrow> string list \<Rightarrow> string option" where
  "first_hit acc script dirs =
     map_option (\<lambda>dir. dir @ ''/'' @ script) (find (\<lambda>dir. acc (dir @ ''/'' @ script)) dirs)"

text \<open>The diameter and the gap of lines 124-131, as \<^verbatim>\<open>draw\<close> computes them.\<close>

definition draw_diameter :: "int \<Rightarrow> int" where
  "draw_diameter pw =
     (let d = int32 (int32 (pw - int32 (10 * 2)) sdiv 3 - 10);
          d = (if d > 100 then 100 else d)
      in if d < 60 then 60 else d)"

definition draw_gap :: "int \<Rightarrow> int" where
  "draw_gap pw = int32 (int32 (pw - int32 (10 * 2)) - int32 (3 * draw_diameter pw)) sdiv 2"

text \<open>The same diameter without the reduction to 32 bits.\<close>

definition diameter :: "int \<Rightarrow> int" where
  "diameter pw =
     (let d = (pw - 20) sdiv 3 - 10; d = (if d > 100 then 100 else d)
      in if d < 60 then 60 else d)"

text \<open>
  The number of own steps a worker needs at most to return once the flag is false.
\<close>

fun rank :: "worker_pc \<Rightarrow> nat" where
  "rank Entry = 2"
| "rank (While cmd) = 1"
| "rank (Body cmd) = 3"
| "rank (For cmd i) = 2"
| "rank Exited = 0"

text \<open>
  What \<open>n\<close> steps of a worker achieve while the flag is false: the worker gets closer
  to its return, invokes only what it had in flight, and does not sleep.
\<close>

definition stopped_inv ::
  "thread \<Rightarrow> worker_pc \<Rightarrow> worker_pc \<Rightarrow> nat \<Rightarrow> (thread \<times> event) list \<Rightarrow> bool" where
  "stopped_inv th pc pc' n evs \<longleftrightarrow>
     rank pc' \<le> rank pc - n \<and> invocations th evs + in_flight pc' \<le> in_flight pc
     \<and> sleeps th evs = 0"

section \<open>Path resolution is a first-match search\<close>

lemma first_hit_Nil [simp]: "first_hit acc script [] = None"
  by (simp add: first_hit_def)

lemma first_hit_Cons [simp]:
  "first_hit acc script (d # ds) =
     (if acc (d @ ''/'' @ script) then Some (d @ ''/'' @ script) else first_hit acc script ds)"
  by (simp add: first_hit_def)

lemma first_hit_append:
  "first_hit acc script (xs @ ys) =
     (case first_hit acc script xs of Some p \<Rightarrow> Some p | None \<Rightarrow> first_hit acc script ys)"
  by (induction xs) auto

lemma first_hit_nonempty: "first_hit acc script dirs = Some p \<Longrightarrow> p \<noteq> []"
  by (auto simp: first_hit_def)

lemma first_hit_None:
  "first_hit acc script dirs = None \<longleftrightarrow> \<not> (\<exists>d\<in>set dirs. acc (d @ ''/'' @ script))"
  by (induction dirs) auto

lemma first_hit_cong:
  "(\<And>d. d \<in> set dirs \<Longrightarrow> acc (d @ ''/'' @ script) = acc' (d @ ''/'' @ script))
   \<Longrightarrow> first_hit acc script dirs = first_hit acc' script dirs"
  by (induction dirs) simp_all

lemma split_colon_ne: "split_colon ss \<noteq> []"
  by (induction ss) (auto split: list.splits)

lemma split_colon_unfold:
  "split_colon ss =
     takeWhile (\<lambda>c. c \<noteq> CHR '':'') ss #
       (if dropWhile (\<lambda>c. c \<noteq> CHR '':'') ss = [] then []
        else split_colon (drop 1 (dropWhile (\<lambda>c. c \<noteq> CHR '':'') ss)))"
proof (induction ss)
  case Nil
  show ?case by simp
next
  case (Cons c cs)
  show ?case
  proof (cases "c = CHR '':''")
    case True
    then show ?thesis by simp
  next
    case False
    then show ?thesis using Cons.IH split_colon_ne [of cs]
      by (cases "split_colon cs") auto
  qed
qed

text \<open>One \<^verbatim>\<open>getline\<close> reads the first listed directory and leaves the rest of the list.\<close>

lemma split_colon_getline:
  assumes "getline ss = Some (dir, rest)"
  shows "filter (\<lambda>d. d \<noteq> []) (split_colon ss) =
           (if dir = [] then [] else [dir]) @ filter (\<lambda>d. d \<noteq> []) (split_colon rest)"
proof -
  let ?dw = "dropWhile (\<lambda>c. c \<noteq> CHR '':'') ss"
  from assms have d: "dir = takeWhile (\<lambda>c. c \<noteq> CHR '':'') ss" and r: "rest = drop 1 ?dw"
    by (auto simp: getline_def split: if_splits)
  have u: "split_colon ss = dir # (if ?dw = [] then [] else split_colon rest)"
    unfolding d r by (rule split_colon_unfold)
  show ?thesis
  proof (cases "?dw = []")
    case True
    then have "rest = []" unfolding r by (simp only: drop_Nil)
    moreover from True u have "split_colon ss = [dir]" by (simp only: if_P if_True refl)
    ultimately show ?thesis by simp
  next
    case False
    with u have "split_colon ss = dir # split_colon rest" by (simp only: if_not_P if_False)
    then show ?thesis by simp
  qed
qed

lemma path_loop_first_hit:
  "path_loop acc script ss = first_hit acc script (filter (\<lambda>d. d \<noteq> []) (split_colon ss))"
proof (induction acc script ss rule: path_loop.induct)
  case (1 acc script ss)
  show ?case
  proof (cases "getline ss")
    case None
    then have "ss = []" by (simp add: getline_def split: if_splits)
    with None show ?thesis by (subst path_loop.simps) simp
  next
    case (Some a)
    then obtain dir rest where g: "getline ss = Some (dir, rest)" by (cases a) simp
    note tail = split_colon_getline [OF g]
    show ?thesis
    proof (cases "dir = []")
      case True
      have "path_loop acc script rest =
          first_hit acc script (filter (\<lambda>d. d \<noteq> []) (split_colon rest))"
        using g True by (rule "1.IH"(1) [OF _ refl])
      with g True tail show ?thesis by (subst path_loop.simps) simp
    next
      case dne: False
      show ?thesis
      proof (cases "acc (dir @ ''/'' @ script)")
        case True
        with g tail dne show ?thesis by (subst path_loop.simps) simp
      next
        case nacc: False
        have "path_loop acc script rest =
            first_hit acc script (filter (\<lambda>d. d \<noteq> []) (split_colon rest))"
          using g dne refl nacc by (rule "1.IH"(2) [OF _ refl])
        with g tail dne nacc show ?thesis by (subst path_loop.simps) simp
      qed
    qed
  qed
qed

lemma fallback_loop_first_hit: "fallback_loop acc script fbs = first_hit acc script fbs"
  by (induction fbs) (simp_all add: Let_def)

lemma resolve_path_eq:
  "resolve_path wld script =
     (case first_hit (access_X_OK wld) script (searched_dirs wld) of
        Some path \<Rightarrow> path | None \<Rightarrow> [])"
  by (cases "getenv_PATH wld")
     (simp_all add: resolve_path_def searched_dirs_def path_loop_first_hit
        fallback_loop_first_hit first_hit_append split: option.split)

lemma first_hit_find:
  "first_hit (access_X_OK wld) script dirs =
     map_option (\<lambda>dir. dir @ ''/'' @ script) (find (contains_executable wld script) dirs)"
  by (induction dirs) (simp_all add: contains_executable_def)

lemma searched_dirs_nonempty: "d \<in> set (searched_dirs wld) \<Longrightarrow> d \<noteq> []"
  by (auto simp: searched_dirs_def fallbacks_def split: option.splits)

lemma searched_dirs_access [simp]:
  "searched_dirs (wld\<lparr>access_X_OK := acc\<rparr>) = searched_dirs wld"
  by (simp add: searched_dirs_def)

lemma resolve_path_access_irrelevant:
  assumes "\<And>d. d \<noteq> [] \<Longrightarrow> p \<noteq> d @ ''/'' @ script"
  shows "resolve_path (wld\<lparr>access_X_OK := (access_X_OK wld)(p := b)\<rparr>) script
         = resolve_path wld script"
proof -
  have "first_hit ((access_X_OK wld)(p := b)) script (searched_dirs wld)
      = first_hit (access_X_OK wld) script (searched_dirs wld)"
    by (rule first_hit_cong) (use assms searched_dirs_nonempty in auto)
  then show ?thesis by (simp add: resolve_path_eq)
qed

text \<open>
  Claim C6. For every script name and every value of the search-path variable,
  \<^verbatim>\<open>resolve_path\<close> probes the directories of the search-path variable in listed order
  and then the fallback directories in listed order: its result is the candidate path
  in the first searched directory that contains an executable file of that name, and it
  is empty exactly when no searched directory contains one.
\<close>

theorem resolve_path_first_match:
  "resolve_path wld script =
     (case find (contains_executable wld script) (searched_dirs wld) of
        Some dir \<Rightarrow> dir @ ''/'' @ script
      | None \<Rightarrow> [])
   \<and> (resolve_path wld script = [] \<longleftrightarrow>
        \<not> (\<exists>dir \<in> set (searched_dirs wld). contains_executable wld script dir))"
proof -
  have one: "resolve_path wld script =
     (case find (contains_executable wld script) (searched_dirs wld) of
        Some dir \<Rightarrow> dir @ ''/'' @ script
      | None \<Rightarrow> [])"
    unfolding resolve_path_eq first_hit_find
    by (cases "find (contains_executable wld script) (searched_dirs wld)") simp_all
  have two: "resolve_path wld script = [] \<longleftrightarrow>
        \<not> (\<exists>dir \<in> set (searched_dirs wld). contains_executable wld script dir)"
  proof (cases "first_hit (access_X_OK wld) script (searched_dirs wld)")
    case None
    then show ?thesis
      using first_hit_None [of "access_X_OK wld" script "searched_dirs wld"]
      by (simp add: resolve_path_eq contains_executable_def)
  next
    case (Some p)
    then show ?thesis
      using first_hit_None [of "access_X_OK wld" script "searched_dirs wld"]
        first_hit_nonempty [OF Some]
      by (simp add: resolve_path_eq contains_executable_def)
  qed
  from one two show ?thesis by (rule conjI)
qed

text \<open>
  Claim C10. Empty segments of the colon-separated search path (leading, trailing or
  doubled colons) contribute no candidate: the result of \<^verbatim>\<open>resolve_path\<close> does not
  depend on whether the root-level path \<^verbatim>\<open>"/" + script\<close> or the path \<^verbatim>\<open>script\<close>
  relative to the current directory is executable, and two search-path values with the
  same non-empty entries give the same result.
\<close>

theorem empty_path_entries_skipped:
  "resolve_path (wld\<lparr>access_X_OK := (access_X_OK wld)(''/'' @ script := b)\<rparr>) script
     = resolve_path wld script
   \<and> resolve_path (wld\<lparr>access_X_OK := (access_X_OK wld)(script := b)\<rparr>) script
     = resolve_path wld script
   \<and> (filter (\<lambda>dir. dir \<noteq> []) (split_colon sp) = filter (\<lambda>dir. dir \<noteq> []) (split_colon sp')
        \<longrightarrow> resolve_path (wld\<lparr>getenv_PATH := Some sp\<rparr>) script
            = resolve_path (wld\<lparr>getenv_PATH := Some sp'\<rparr>) script)"
proof -
  have a: "resolve_path (wld\<lparr>access_X_OK := (access_X_OK wld)(''/'' @ script := b)\<rparr>) script
     = resolve_path wld script"
    by (rule resolve_path_access_irrelevant) simp
  have b: "resolve_path (wld\<lparr>access_X_OK := (access_X_OK wld)(script := b)\<rparr>) script
     = resolve_path wld script"
  proof (rule resolve_path_access_irrelevant)
    fix d :: string
    have "length (d @ ''/'' @ script) \<noteq> length script" by simp
    then show "script \<noteq> d @ ''/'' @ script" by metis
  qed
  have c: "resolve_path (wld\<lparr>getenv_PATH := Some sp\<rparr>) script
            = resolve_path (wld\<lparr>getenv_PATH := Some sp'\<rparr>) script"
    if "filter (\<lambda>dir. dir \<noteq> []) (split_colon sp) = filter (\<lambda>dir. dir \<noteq> []) (split_colon sp')"
    using that by (simp add: resolve_path_eq searched_dirs_def)
  from a b c show ?thesis by blast
qed

theorem empty_path_entries_skipped_witness:
  "filter (\<lambda>dir. dir \<noteq> []) (split_colon '':/opt/monitor::/opt/bin:'')
     = filter (\<lambda>dir. dir \<noteq> []) (split_colon ''/opt/monitor:/opt/bin'')
   \<and> resolve_path (world_serial_only\<lparr>getenv_PATH := Some '':/opt/monitor::/opt/bin:''\<rparr>)
        ''test_serial.sh''
     = resolve_path (world_serial_only\<lparr>getenv_PATH := Some ''/opt/monitor:/opt/bin''\<rparr>)
        ''test_serial.sh''
   \<and> resolve_path (world_serial_only\<lparr>getenv_PATH := Some '':/opt/monitor::/opt/bin:''\<rparr>)
        ''test_serial.sh''
     = ''/opt/monitor/test_serial.sh''"
proof -
  have h: "filter (\<lambda>dir. dir \<noteq> []) (split_colon '':/opt/monitor::/opt/bin:'')
     = filter (\<lambda>dir. dir \<noteq> []) (split_colon ''/opt/monitor:/opt/bin'')"
    by simp
  have v: "resolve_path (world_serial_only\<lparr>getenv_PATH := Some '':/opt/monitor::/opt/bin:''\<rparr>)
        ''test_serial.sh'' = ''/opt/monitor/test_serial.sh''"
    by (simp add: resolve_path_eq searched_dirs_def world_serial_only_def)
  from empty_path_entries_skipped
    [of world_serial_only "''test_serial.sh''" True
        "'':/opt/monitor::/opt/bin:''" "''/opt/monitor:/opt/bin''",
      THEN conjunct2, THEN conjunct2, THEN mp, OF h] h v
  show ?thesis by (intro conjI)
qed

section \<open>Rendering\<close>

lemma make_status_line_eq:
  "make_status_line m =
     (snprintf_status 128 (to_str (network (app m))) (to_str (serial (app m))),
      m\<lparr>trace := trace m @ [LoadNetwork, LoadSerial]\<rparr>)"
  by (simp add: make_status_line_def network_load_def serial_load_def)

lemma to_str_placeholder: "to_str v = placeholder v"
  by (cases v) (simp_all add: placeholder_def)

text \<open>The formatted text always fits the 128-byte buffer: it is never cut.\<close>

lemma status_text_length:
  "length (''network='' @ to_str p @ '', serial='' @ to_str q) < 128"
  by (cases p; cases q) simp_all

lemma snprintf_status_fits:
  "snprintf_status 128 (to_str p) (to_str q) = ''network='' @ to_str p @ '', serial='' @ to_str q"
  by (cases p; cases q) (simp_all add: snprintf_status_def)

lemma draw_machine:
  "snd (draw fm wd m) = m\<lparr>trace := trace m @ [LoadNetwork, LoadSerial]\<rparr>"
  by (simp add: draw_def network_load_def serial_load_def Let_def)

lemma circles_draw_circle:
  "circles_from cur (draw_circle cx cy d fill @ calls) =
     ((cx, cy, d, d), Some fill) # circles_from (Some FL_DARK3) calls"
  by (simp add: draw_circle_def)

lemma circles_draw_caption:
  "circles_from cur (draw_caption_centered fm x0 y0 w0 s @ calls) =
     circles_from (Some FL_BLACK) calls"
  by (simp add: draw_caption_centered_def Let_def split: prod.split)

lemma circles_draw:
  "circles (fst (draw fm wd m)) =
     (let d = draw_diameter (widget_w wd);
          gap = draw_gap (widget_w wd);
          left = int32 (widget_x wd + 10);
          top = int32 (widget_y wd + 10)
      in [((left, top, d, d), Some (color_for (network (app m)))),
          ((int32 (int32 (left + d) + gap), top, d, d), Some (color_for (serial (app m)))),
          ((int32 (left + int32 (2 * int32 (d + gap))), top, d, d),
           Some (fl_rgb_color 128 128 128))])"
proof -
  have "circles_from cur (draw_caption_centered fm x0 y0 w0 s) = []" for cur x0 y0 w0 s
    using circles_draw_caption [of cur fm x0 y0 w0 s "[]"] by simp
  then show ?thesis
    by (simp add: circles_def draw_def draw_diameter_def draw_gap_def network_load_def
        serial_load_def Let_def circles_draw_circle circles_draw_caption)
qed

text \<open>
  Claim C4. For every pair of probe states, the status line made from a shared state
  holding them is exactly \<^verbatim>\<open>network=<W>, serial=<X>\<close>, each placeholder being
  \<^verbatim>\<open>OK\<close> for Ok, \<^verbatim>\<open>down\<close> for Fail and \<^verbatim>\<open>unknown\<close> for Unknown; in particular
  (Ok, Fail) gives \<^verbatim>\<open>network=OK, serial=down\<close> and (Unknown, Unknown) gives
  \<^verbatim>\<open>network=unknown, serial=unknown\<close>.
\<close>

theorem make_status_line_format:
  "fst (make_status_line m) =
     ''network='' @ placeholder (network (app m)) @ '', serial='' @ placeholder (serial (app m))
   \<and> fst (make_status_line \<lparr>app = \<lparr>network = Ok, serial = Fail, running = r\<rparr>, trace = t\<rparr>)
       = ''network=OK, serial=down''
   \<and> fst (make_status_line \<lparr>app = \<lparr>network = Unknown, serial = Unknown, running = r\<rparr>, trace = t\<rparr>)
       = ''network=unknown, serial=unknown''"
proof -
  have "fst (make_status_line m) =
     ''network='' @ placeholder (network (app m)) @ '', serial='' @ placeholder (serial (app m))"
    unfolding make_status_line_eq fst_conv snprintf_status_fits
    by (simp only: to_str_placeholder)
  moreover have "fst (make_status_line \<lparr>app = \<lparr>network = Ok, serial = Fail, running = r\<rparr>, trace = t\<rparr>)
       = ''network=OK, serial=down''"
    by (simp add: make_status_line_eq snprintf_status_def)
  moreover have "fst (make_status_line \<lparr>app = \<lparr>network = Unknown, serial = Unknown, running = r\<rparr>, trace = t\<rparr>)
       = ''network=unknown, serial=unknown''"
    by (simp add: make_status_line_eq snprintf_status_def)
  ultimately show ?thesis by simp
qed

text \<open>
  Claim C5. \<^verbatim>\<open>color_for\<close> is a total mapping of the probe states: green for Ok, red
  for Fail, gray for Unknown. The three circles \<^verbatim>\<open>draw\<close> paints are filled with the
  colour of the network state, the colour of the serial state and, for the third
  (reserved) one, gray whatever the state is.
\<close>

theorem color_for_mapping:
  "color_for Ok = FL_GREEN \<and> color_for Fail = FL_RED
   \<and> color_for Unknown = fl_rgb_color 128 128 128
   \<and> map snd (circles (fst (draw fm wd m))) =
       [Some (color_for (network (app m))), Some (color_for (serial (app m))),
        Some (fl_rgb_color 128 128 128)]"
  by (simp add: circles_draw Let_def)

text \<open>
  Claim C8. The render path (composing the status line, drawing the panel, and the
  timer callback that does both) only loads the two probe cells: it leaves every field
  of the shared state as it was and performs no store, also as a step of the running
  program. It cannot fail for any combination of probe states: the text always fits the
  buffer, three circles are always drawn, and the state just initialised renders as
  \<^verbatim>\<open>network=unknown, serial=unknown\<close>.
\<close>

theorem render_path_read_only:
  "app (snd (make_status_line m)) = app m
   \<and> trace (snd (make_status_line m)) = trace m @ [LoadNetwork, LoadSerial]
   \<and> app (snd (draw fm wd m)) = app m
   \<and> trace (snd (draw fm wd m)) = trace m @ [LoadNetwork, LoadSerial]
   \<and> app (snd (ui_timer_cb fm wd m)) = app m
   \<and> trace (snd (ui_timer_cb fm wd m)) =
       trace m @ [LoadNetwork, LoadSerial, LoadNetwork, LoadSerial]
   \<and> shared (snd (step wld fm UiTimer c)) = shared c
   \<and> length (''network='' @ to_str (network (app m)) @ '', serial='' @ to_str (serial (app m)))
       < 128
   \<and> length (circles (fst (draw fm wd m))) = 3
   \<and> fst (fst (ui_timer_cb fm wd \<lparr>app = AppState_init, trace = []\<rparr>))
       = ''network=unknown, serial=unknown''"
proof -
  have u: "app (snd (ui_timer_cb fm wd m)) = app m
      \<and> trace (snd (ui_timer_cb fm wd m)) =
          trace m @ [LoadNetwork, LoadSerial, LoadNetwork, LoadSerial]" for wd m
    by (simp add: make_status_line_eq draw_machine ui_timer_cb_def split_beta)
  have s: "shared (snd (step wld fm UiTimer c)) = shared c"
    using u [of main_panel "\<lparr>app = shared c, trace = []\<rparr>"] by (simp add: split_beta)
  have i: "fst (fst (ui_timer_cb fm wd \<lparr>app = AppState_init, trace = []\<rparr>))
       = ''network=unknown, serial=unknown''"
    by (simp add: ui_timer_cb_def make_status_line_eq snprintf_status_def AppState_init_def
        split_beta)
  have n: "length (circles (fst (draw fm wd m))) = 3"
    by (simp add: circles_draw Let_def)
  from u [of wd m] s i n status_text_length show ?thesis
    by (simp add: make_status_line_eq draw_machine)
qed

subsection \<open>Layout\<close>

lemma int32_id: "- 2147483648 \<le> v \<Longrightarrow> v \<le> 2147483647 \<Longrightarrow> int32 v = v"
  by (simp add: int32_def)

lemma int32_range: "- 2147483648 \<le> int32 v \<and> int32 v \<le> 2147483647"
proof -
  have "0 \<le> (v + 2147483648) mod 4294967296" "(v + 2147483648) mod 4294967296 < 4294967296"
    by simp_all
  then show ?thesis unfolding int32_def by linarith
qed

lemma sdiv_nonneg: "0 \<le> a \<Longrightarrow> 0 < b \<Longrightarrow> (a::int) sdiv b = a div b"
  by (simp add: signed_divide_int_def sgn_if)

lemma sdiv_neg: "a < 0 \<Longrightarrow> 0 < b \<Longrightarrow> (a::int) sdiv b = - ((- a) div b)"
  by (simp add: signed_divide_int_def sgn_if)

lemma draw_diameter_range: "60 \<le> draw_diameter pw \<and> draw_diameter pw \<le> 100"
  by (simp add: draw_diameter_def Let_def)

lemma sdiv3_bounds: "- 2147483648 \<le> a \<Longrightarrow> a \<le> 2147483647 \<Longrightarrow>
    - 2147483648 + 10 \<le> (a::int) sdiv 3 \<and> a sdiv 3 \<le> 2147483647"
  by (cases "0 \<le> a") (simp_all add: sdiv_nonneg sdiv_neg, arith+)

lemma draw_diameter_eq:
  assumes "0 \<le> pw" "pw \<le> INT_MAX"
  shows "draw_diameter pw = diameter pw"
proof -
  have a: "int32 (pw - int32 (10 * 2)) = pw - 20"
    using assms by (simp add: int32_id INT_MAX_def)
  have "- 2147483648 \<le> pw - 20" "pw - 20 \<le> 2147483647"
    using assms by (simp_all add: INT_MAX_def)
  from sdiv3_bounds [OF this] have "int32 ((pw - 20) sdiv 3 - 10) = (pw - 20) sdiv 3 - 10"
    by (intro int32_id) simp_all
  with a show ?thesis by (simp add: draw_diameter_def diameter_def)
qed

lemma draw_gap_eq:
  assumes "0 \<le> pw" "pw \<le> INT_MAX"
  shows "draw_gap pw = (pw - 20 - 3 * diameter pw) sdiv 2"
proof -
  have r: "60 \<le> diameter pw" "diameter pw \<le> 100"
    by (simp_all add: diameter_def Let_def)
  have a: "int32 (pw - int32 (10 * 2)) = pw - 20"
    using assms by (simp add: int32_id INT_MAX_def)
  have b: "int32 (3 * diameter pw) = 3 * diameter pw"
    using r by (intro int32_id) simp_all
  have c: "int32 (pw - 20 - 3 * diameter pw) = pw - 20 - 3 * diameter pw"
    using r assms by (intro int32_id) (simp_all add: INT_MAX_def)
  show ?thesis
    by (simp only: draw_gap_def draw_diameter_eq [OF assms] a b c)
qed

lemma diameter_range: "60 \<le> diameter pw \<and> diameter pw \<le> 100"
  by (simp add: diameter_def Let_def)

lemma diameter_60_iff: "diameter pw = 60 \<longleftrightarrow> pw \<le> 232"
proof (cases "0 \<le> pw - 20")
  case True
  then show ?thesis by (simp add: diameter_def Let_def sdiv_nonneg) arith
next
  case False
  then have "(pw - 20) sdiv 3 \<le> 0" by (simp add: sdiv_neg)
  with False show ?thesis by (simp add: diameter_def Let_def)
qed

lemma diameter_100_iff: "diameter pw = 100 \<longleftrightarrow> 350 \<le> pw"
proof (cases "0 \<le> pw - 20")
  case True
  then show ?thesis by (simp add: diameter_def Let_def sdiv_nonneg) arith
next
  case False
  then have "(pw - 20) sdiv 3 \<le> 0" by (simp add: sdiv_neg)
  with False show ?thesis by (simp add: diameter_def Let_def)
qed

lemma diameter_fits: "199 \<le> pw \<Longrightarrow> 3 * diameter pw \<le> pw - 20 + 1"
  by (simp add: diameter_def Let_def sdiv_nonneg) arith

lemma diameter_room: "233 \<le> pw \<Longrightarrow> 3 * diameter pw \<le> pw - 20"
  by (simp add: diameter_def Let_def sdiv_nonneg) arith

lemma gap_nonneg_iff:
  "0 \<le> (pw - 20 - 3 * diameter pw) sdiv 2 \<longleftrightarrow> 199 \<le> pw"
proof (cases "199 \<le> pw")
  case True
  show ?thesis
  proof (cases "0 \<le> pw - 20 - 3 * diameter pw")
    case nn: True
    with True show ?thesis by (simp add: sdiv_nonneg)
  next
    case False
    with diameter_fits [OF True] have "pw - 20 - 3 * diameter pw = -1" by simp
    with True show ?thesis by (simp add: sdiv_neg)
  qed
next
  case False
  then have "diameter pw = 60" by (simp add: diameter_60_iff)
  with False show ?thesis by (simp add: sdiv_neg)
qed

lemma right_edge:
  "199 \<le> pw \<Longrightarrow> 3 * diameter pw + 2 * ((pw - 20 - 3 * diameter pw) sdiv 2) \<le> pw - 10"
proof (cases "0 \<le> pw - 20 - 3 * diameter pw")
  case True
  then show ?thesis by (simp add: sdiv_nonneg)
next
  case False
  assume "199 \<le> pw"
  with False diameter_fits [of pw] have "pw - 20 - 3 * diameter pw = -1" by simp
  then show ?thesis by (simp add: sdiv_neg)
qed

text \<open>Bounds on the gap of a panel of non-negative width.\<close>

lemma gap_bounds:
  assumes "0 \<le> pw"
  defines "g \<equiv> (pw - 20 - 3 * diameter pw) sdiv 2"
  shows "- 100 \<le> g"
    and "2 * (diameter pw + g) \<le> pw - 20 - diameter pw \<or> 2 * (diameter pw + g) \<le> 120"
proof -
  show "- 100 \<le> g"
  proof (cases "pw \<le> 232")
    case True
    then have d: "diameter pw = 60" by (simp add: diameter_60_iff)
    show ?thesis
    proof (cases "0 \<le> pw - 200")
      case True
      with d show ?thesis by (simp add: g_def sdiv_nonneg)
    next
      case False
      with d assms(1) show ?thesis by (simp add: g_def sdiv_neg)
    qed
  next
    case False
    then have "0 \<le> pw - 20 - 3 * diameter pw" using diameter_room [of pw] by simp
    then show ?thesis by (simp add: g_def sdiv_nonneg)
  qed
  show "2 * (diameter pw + g) \<le> pw - 20 - diameter pw \<or> 2 * (diameter pw + g) \<le> 120"
  proof (cases "0 \<le> pw - 20 - 3 * diameter pw")
    case True
    then have "2 * g \<le> pw - 20 - 3 * diameter pw" by (simp add: g_def sdiv_nonneg)
    then show ?thesis by simp
  next
    case False
    then have "g \<le> 0" by (simp add: g_def sdiv_neg)
    moreover from False diameter_room [of pw] have "pw \<le> 232"
      by (cases "233 \<le> pw") simp_all
    then have "diameter pw = 60" by (simp add: diameter_60_iff)
    ultimately show ?thesis by simp
  qed
qed

lemma draw_positions:
  assumes "panel_representable wd"
  shows "map fst (circles (fst (draw fm wd m))) =
     (let d = diameter (widget_w wd);
          gap = (widget_w wd - 20 - 3 * d) sdiv 2;
          left = widget_x wd + 10;
          top = int32 (widget_y wd + 10)
      in [(left, top, d, d), (left + d + gap, top, d, d), (left + 2 * (d + gap), top, d, d)])"
proof -
  define d where "d = diameter (widget_w wd)"
  define gap where "gap = (widget_w wd - 20 - 3 * d) sdiv 2"
  let ?left = "widget_x wd + 10"
  from assms have w: "0 \<le> widget_w wd" "widget_w wd \<le> INT_MAX"
    and xr: "- 2147483648 + 70 \<le> widget_x wd" "widget_x wd + 130 \<le> 2147483647"
      "widget_x wd + widget_w wd \<le> 2147483647"
    by (simp_all add: panel_representable_def INT_MIN_def INT_MAX_def)
  have wm: "widget_w wd \<le> 2147483647" using w by (simp add: INT_MAX_def)
  have r: "60 \<le> d" "d \<le> 100" using diameter_range [of "widget_w wd"] by (simp_all add: d_def)
  have dd: "draw_diameter (widget_w wd) = d" by (simp add: draw_diameter_eq [OF w] d_def)
  have dg: "draw_gap (widget_w wd) = gap" by (simp add: draw_gap_eq [OF w] gap_def d_def)
  have gl: "- 100 \<le> gap" using gap_bounds(1) [OF w(1)] by (simp add: gap_def d_def)
  have gu: "2 * (d + gap) \<le> widget_w wd - 20 - d \<or> 2 * (d + gap) \<le> 120"
    using gap_bounds(2) [OF w(1)] by (simp add: gap_def d_def)
  have l: "int32 ?left = ?left"
    using xr by (intro int32_id) simp_all
  have a: "int32 (?left + d) = ?left + d"
    using xr r by (intro int32_id) simp_all
  have b: "int32 (?left + d + gap) = ?left + d + gap"
    using xr r gl gu wm w(1) by (intro int32_id) arith+
  have c: "int32 (d + gap) = d + gap"
    using r gl gu wm w(1) by (intro int32_id) arith+
  have e: "int32 (2 * (d + gap)) = 2 * (d + gap)"
    using r gl gu wm w(1) by (intro int32_id) arith+
  have f: "int32 (?left + 2 * (d + gap)) = ?left + 2 * (d + gap)"
    using xr r gl gu wm w(1) by (intro int32_id) arith+
  have "map fst (circles (fst (draw fm wd m))) =
      [(int32 ?left, int32 (widget_y wd + 10), d, d),
       (int32 (int32 (int32 ?left + d) + gap), int32 (widget_y wd + 10), d, d),
       (int32 (int32 ?left + int32 (2 * int32 (d + gap))), int32 (widget_y wd + 10), d, d)]"
    by (simp add: circles_draw Let_def dd dg)
  also have "\<dots> =
      [(?left, int32 (widget_y wd + 10), d, d),
       (?left + d + gap, int32 (widget_y wd + 10), d, d),
       (?left + 2 * (d + gap), int32 (widget_y wd + 10), d, d)]"
    by (simp only: l a b c e f)
  finally show ?thesis by (simp add: Let_def d_def gap_def)
qed

text \<open>
  Claim C9, as amended. For every panel, \<^verbatim>\<open>draw\<close> paints three circles of one
  diameter, clamped to 60..100 pixels, on one line. For every representable panel
  (non-negative width, coordinates within the 32-bit range), the diameter is the minimum
  of 60 exactly on panels up to 232 pixels wide and the maximum of 100 exactly from 350
  pixels on, the first circle starts 10 pixels from the left edge, and the gap between
  the first and the second circle equals the gap between the second and the third. The
  circles stand side by side (the gap is not negative) inside the panel width exactly
  when the panel is at least 199 pixels wide: on a narrower panel the minimum diameter
  of 60 pixels is kept and the circles overlap or leave the panel.
\<close>

theorem draw_layout:
  "\<exists>d x0 x1 x2 top.
     map fst (circles (fst (draw fm wd m))) = [(x0, top, d, d), (x1, top, d, d), (x2, top, d, d)]
     \<and> 60 \<le> d \<and> d \<le> 100
     \<and> (panel_representable wd \<longrightarrow>
           (d = 60 \<longleftrightarrow> widget_w wd \<le> 232)
         \<and> (d = 100 \<longleftrightarrow> 350 \<le> widget_w wd)
         \<and> x0 = widget_x wd + 10
         \<and> gap_between (x0, top, d, d) (x1, top, d, d)
             = gap_between (x1, top, d, d) (x2, top, d, d)
         \<and> ((0 \<le> gap_between (x0, top, d, d) (x1, top, d, d)
              \<and> inside_panel wd (x0, top, d, d) \<and> inside_panel wd (x1, top, d, d)
              \<and> inside_panel wd (x2, top, d, d))
             \<longleftrightarrow> 199 \<le> widget_w wd))"
proof (cases "panel_representable wd")
  case False
  define d where "d = draw_diameter (widget_w wd)"
  define gap where "gap = draw_gap (widget_w wd)"
  define left where "left = int32 (widget_x wd + 10)"
  define top where "top = int32 (widget_y wd + 10)"
  have "map fst (circles (fst (draw fm wd m))) =
      [(left, top, d, d), (int32 (int32 (left + d) + gap), top, d, d),
       (int32 (left + int32 (2 * int32 (d + gap))), top, d, d)]"
    by (simp add: circles_draw Let_def d_def gap_def left_def top_def)
  moreover have "60 \<le> d" "d \<le> 100"
    unfolding d_def using draw_diameter_range [of "widget_w wd"] by simp_all
  ultimately have "map fst (circles (fst (draw fm wd m))) =
        [(left, top, d, d), (int32 (int32 (left + d) + gap), top, d, d),
         (int32 (left + int32 (2 * int32 (d + gap))), top, d, d)]
     \<and> 60 \<le> d \<and> d \<le> 100
     \<and> (panel_representable wd \<longrightarrow>
           (d = 60 \<longleftrightarrow> widget_w wd \<le> 232)
         \<and> (d = 100 \<longleftrightarrow> 350 \<le> widget_w wd)
         \<and> left = widget_x wd + 10
         \<and> gap_between (left, top, d, d) (int32 (int32 (left + d) + gap), top, d, d)
             = gap_between (int32 (int32 (left + d) + gap), top, d, d)
                 (int32 (left + int32 (2 * int32 (d + gap))), top, d, d)
         \<and> ((0 \<le> gap_between (left, top, d, d) (int32 (int32 (left + d) + gap), top, d, d)
              \<and> inside_panel wd (left, top, d, d)
              \<and> inside_panel wd (int32 (int32 (left + d) + gap), top, d, d)
              \<and> inside_panel wd (int32 (left + int32 (2 * int32 (d + gap))), top, d, d))
             \<longleftrightarrow> 199 \<le> widget_w wd))"
    using False by (intro conjI impI) (assumption | erule (1) notE)+
  then show ?thesis by (intro exI)
next
  case True
  define d where "d = diameter (widget_w wd)"
  define gap where "gap = (widget_w wd - 20 - 3 * d) sdiv 2"
  define left where "left = widget_x wd + 10"
  define top where "top = int32 (widget_y wd + 10)"
  have c: "map fst (circles (fst (draw fm wd m))) =
      [(left, top, d, d), (left + d + gap, top, d, d), (left + 2 * (d + gap), top, d, d)]"
    using draw_positions [OF True, of fm m]
    by (simp add: Let_def d_def gap_def left_def top_def)
  have r: "60 \<le> d" "d \<le> 100"
    using diameter_range [of "widget_w wd"] by (simp_all add: d_def)
  have d60: "d = 60 \<longleftrightarrow> widget_w wd \<le> 232"
    unfolding d_def by (rule diameter_60_iff)
  have d100: "d = 100 \<longleftrightarrow> 350 \<le> widget_w wd"
    unfolding d_def by (rule diameter_100_iff)
  have g: "0 \<le> gap \<longleftrightarrow> 199 \<le> widget_w wd"
    unfolding gap_def d_def by (rule gap_nonneg_iff)
  have e: "199 \<le> widget_w wd \<Longrightarrow> 3 * d + 2 * gap \<le> widget_w wd - 10"
    unfolding gap_def d_def by (rule right_edge)
  have i: "(0 \<le> gap_between (left, top, d, d) (left + d + gap, top, d, d)
          \<and> inside_panel wd (left, top, d, d) \<and> inside_panel wd (left + d + gap, top, d, d)
          \<and> inside_panel wd (left + 2 * (d + gap), top, d, d))
         \<longleftrightarrow> 199 \<le> widget_w wd"
  proof (cases "199 \<le> widget_w wd")
    case True
    with g e r show ?thesis
      by (simp add: gap_between_def inside_panel_def left_def)
  next
    case False
    with g show ?thesis by (simp add: gap_between_def)
  qed
  have q: "gap_between (left, top, d, d) (left + d + gap, top, d, d)
      = gap_between (left + d + gap, top, d, d) (left + 2 * (d + gap), top, d, d)"
    by (simp add: gap_between_def)
  have "map fst (circles (fst (draw fm wd m))) =
        [(left, top, d, d), (left + d + gap, top, d, d), (left + 2 * (d + gap), top, d, d)]
     \<and> 60 \<le> d \<and> d \<le> 100
     \<and> (panel_representable wd \<longrightarrow>
           (d = 60 \<longleftrightarrow> widget_w wd \<le> 232)
         \<and> (d = 100 \<longleftrightarrow> 350 \<le> widget_w wd)
         \<and> left = widget_x wd + 10
         \<and> gap_between (left, top, d, d) (left + d + gap, top, d, d)
             = gap_between (left + d + gap, top, d, d) (left + 2 * (d + gap), top, d, d)
         \<and> ((0 \<le> gap_between (left, top, d, d) (left + d + gap, top, d, d)
              \<and> inside_panel wd (left, top, d, d)
              \<and> inside_panel wd (left + d + gap, top, d, d)
              \<and> inside_panel wd (left + 2 * (d + gap), top, d, d))
             \<longleftrightarrow> 199 \<le> widget_w wd))"
    using c r d60 d100 i q left_def by (intro conjI impI)
  then show ?thesis by (intro exI)
qed

theorem draw_layout_witness:
  "panel_representable main_panel
   \<and> map fst (circles (fst (draw no_text main_panel \<lparr>app = AppState_init, trace = []\<rparr>)))
       = [(20, 20, 83, 83), (118, 20, 83, 83), (216, 20, 83, 83)]
   \<and> 199 \<le> widget_w main_panel
   \<and> gap_between (20, 20, 83, 83) (118, 20, 83, 83)
       = gap_between (118, 20, 83, 83) (216, 20, 83, 83)
   \<and> 0 \<le> gap_between (20, 20, 83, 83) (118, 20, 83, 83)
   \<and> inside_panel main_panel (20, 20, 83, 83)
   \<and> inside_panel main_panel (118, 20, 83, 83)
   \<and> inside_panel main_panel (216, 20, 83, 83)"
proof -
  let ?m = "\<lparr>app = AppState_init, trace = []\<rparr>"
  have h: "panel_representable main_panel"
    by (simp add: panel_representable_def main_panel_def INT_MIN_def INT_MAX_def)
  have v: "map fst (circles (fst (draw no_text main_panel ?m)))
       = [(20, 20, 83, 83), (118, 20, 83, 83), (216, 20, 83, 83)]"
    by code_simp
  have w: "199 \<le> widget_w main_panel" by (simp add: main_panel_def)
  from draw_layout [of no_text main_panel ?m] obtain d x0 x1 x2 top where
    eq: "map fst (circles (fst (draw no_text main_panel ?m)))
        = [(x0, top, d, d), (x1, top, d, d), (x2, top, d, d)]"
    and imp: "panel_representable main_panel \<longrightarrow>
           (d = 60 \<longleftrightarrow> widget_w main_panel \<le> 232)
         \<and> (d = 100 \<longleftrightarrow> 350 \<le> widget_w main_panel)
         \<and> x0 = widget_x main_panel + 10
         \<and> gap_between (x0, top, d, d) (x1, top, d, d)
             = gap_between (x1, top, d, d) (x2, top, d, d)
         \<and> ((0 \<le> gap_between (x0, top, d, d) (x1, top, d, d)
              \<and> inside_panel main_panel (x0, top, d, d)
              \<and> inside_panel main_panel (x1, top, d, d)
              \<and> inside_panel main_panel (x2, top, d, d))
             \<longleftrightarrow> 199 \<le> widget_w main_panel)"
    by (elim exE conjE) (rule that)
  from eq v have vals: "x0 = 20" "x1 = 118" "x2 = 216" "top = 20" "d = 83" by simp_all
  note k = imp [THEN mp, OF h]
  note geq = k [THEN conjunct2, THEN conjunct2, THEN conjunct2, THEN conjunct1]
  note sbs = k [THEN conjunct2, THEN conjunct2, THEN conjunct2, THEN conjunct2, THEN iffD2, OF w]
  from geq have g': "gap_between (20, 20, 83, 83) (118, 20, 83, 83)
       = gap_between (118, 20, 83, 83) (216, 20, 83, 83)"
    unfolding vals .
  from sbs have s': "0 \<le> gap_between (20, 20, 83, 83) (118, 20, 83, 83)
      \<and> inside_panel main_panel (20, 20, 83, 83)
      \<and> inside_panel main_panel (118, 20, 83, 83)
      \<and> inside_panel main_panel (216, 20, 83, 83)"
    unfolding vals .
  from h v w g' s' show ?thesis by (intro conjI) (simp_all only: simp_thms)
qed

text \<open>
  Claim C9 as stated fails on a narrow panel. On a panel 30 pixels wide at x = 10 (so
  spanning 10..40) the three circles of diameter 60 are placed at x = 20, -5 and -30:
  the first reaches to 80, beyond the right edge, the second starts left of the panel,
  and the gap between neighbours is -85. It also fails where the coordinates overflow:
  on a panel of width 2147483647 at x = 200 the addition of line 147 wraps around and
  the third circle is placed at x = -2147483560, left of the panel.
\<close>

theorem draw_layout_narrow_panel:
  "map fst (circles (fst (draw no_text
       \<lparr>widget_x = 10, widget_y = 10, widget_w = 30, widget_h = 160\<rparr>
       \<lparr>app = AppState_init, trace = []\<rparr>)))
     = [(20, 20, 60, 60), (-5, 20, 60, 60), (-30, 20, 60, 60)]
   \<and> \<not> inside_panel \<lparr>widget_x = 10, widget_y = 10, widget_w = 30, widget_h = 160\<rparr>
         (20, 20, 60, 60)
   \<and> \<not> inside_panel \<lparr>widget_x = 10, widget_y = 10, widget_w = 30, widget_h = 160\<rparr>
         (-5, 20, 60, 60)
   \<and> gap_between (20, 20, 60, 60) (-5, 20, 60, 60) = -85
   \<and> map fst (circles (fst (draw no_text
       \<lparr>widget_x = 200, widget_y = 10, widget_w = 2147483647, widget_h = 160\<rparr>
       \<lparr>app = AppState_init, trace = []\<rparr>)))
     = [(210, 20, 100, 100), (1073741973, 20, 100, 100), (-2147483560, 20, 100, 100)]
   \<and> \<not> inside_panel \<lparr>widget_x = 200, widget_y = 10, widget_w = 2147483647, widget_h = 160\<rparr>
         (-2147483560, 20, 100, 100)"
  by code_simp

section \<open>The worker loops\<close>

lemmas access_defs =
  running_load_def network_store_def serial_store_def running_store_def sleep_for_def
  std_system_def run_command_success_def

lemma sleep_increments_Suc:
  "sleep_increments (Suc n) = [LoadRunning, SleepFor 50] @ sleep_increments n"
  by (simp add: sleep_increments_def)

lemma slept_sleep_increments: "slept (sleep_increments n) = 50 * n"
  by (induction n) (simp_all add: sleep_increments_def)

lemma two_steps: "length xs = 2 \<Longrightarrow> \<exists>a b. xs = [a, b]"
  by (cases xs; cases "tl xs") auto

lemma network_worker_steps_append:
  "network_worker_steps wld (xs @ ys) pm =
     network_worker_steps wld ys (network_worker_steps wld xs pm)"
  by (induction xs arbitrary: pm) simp_all

lemma serial_worker_steps_append:
  "serial_worker_steps wld (xs @ ys) pm =
     serial_worker_steps wld ys (serial_worker_steps wld xs pm)"
  by (induction xs arbitrary: pm) simp_all

text \<open>While the flag stays set, the sleep loop sleeps one increment per step.\<close>

lemma network_sleep_loop:
  "running (app m) \<Longrightarrow> i + length syss \<le> 40 \<Longrightarrow>
   network_worker_steps wld syss (For cmd i, m) =
     (For cmd (i + length syss), m\<lparr>trace := trace m @ sleep_increments (length syss)\<rparr>)"
proof (induction syss arbitrary: i m)
  case Nil
  show ?case by (simp add: sleep_increments_def)
next
  case (Cons sys syss)
  from Cons.prems have step: "network_worker_step wld sys (For cmd i) m =
      (For cmd (Suc i), m\<lparr>trace := trace m @ [LoadRunning, SleepFor 50]\<rparr>)"
    by (simp add: access_defs)
  have "network_worker_steps wld syss
          (For cmd (Suc i), m\<lparr>trace := trace m @ [LoadRunning, SleepFor 50]\<rparr>)
      = (For cmd (Suc i + length syss),
         m\<lparr>trace := trace m @ [LoadRunning, SleepFor 50] @ sleep_increments (length syss)\<rparr>)"
    using Cons.prems by (subst Cons.IH) simp_all
  with step show ?case by (simp add: sleep_increments_Suc)
qed

lemma serial_sleep_loop:
  "running (app m) \<Longrightarrow> i + length syss \<le> 40 \<Longrightarrow>
   serial_worker_steps wld syss (For cmd i, m) =
     (For cmd (i + length syss), m\<lparr>trace := trace m @ sleep_increments (length syss)\<rparr>)"
proof (induction syss arbitrary: i m)
  case Nil
  show ?case by (simp add: sleep_increments_def)
next
  case (Cons sys syss)
  from Cons.prems have step: "serial_worker_step wld sys (For cmd i) m =
      (For cmd (Suc i), m\<lparr>trace := trace m @ [LoadRunning, SleepFor 50]\<rparr>)"
    by (simp add: access_defs)
  have "serial_worker_steps wld syss
          (For cmd (Suc i), m\<lparr>trace := trace m @ [LoadRunning, SleepFor 50]\<rparr>)
      = (For cmd (Suc i + length syss),
         m\<lparr>trace := trace m @ [LoadRunning, SleepFor 50] @ sleep_increments (length syss)\<rparr>)"
    using Cons.prems by (subst Cons.IH) simp_all
  with step show ?case by (simp add: sleep_increments_Suc)
qed

text \<open>
  One full iteration: the probe is invoked and its result stored, the worker sleeps 40
  increments, leaves the sleep loop and passes the loop condition again.
\<close>

lemma network_cycle:
  assumes run: "running (app m)" and len: "length syss = 42"
  shows "network_worker_steps wld (sys # syss) (Body cmd, m) =
     (Body cmd,
      m\<lparr>app := (app m)\<lparr>network := (if sys cmd = 0 then Ok else Fail)\<rparr>,
        trace := trace m @ [System cmd (sys cmd), StoreNetwork (if sys cmd = 0 then Ok else Fail)]
                 @ sleep_increments 40 @ [LoadRunning]\<rparr>)"
proof -
  define m1 where "m1 = m\<lparr>app := (app m)\<lparr>network := (if sys cmd = 0 then Ok else Fail)\<rparr>,
        trace := trace m @ [System cmd (sys cmd), StoreNetwork (if sys cmd = 0 then Ok else Fail)]\<rparr>"
  have b: "network_worker_step wld sys (Body cmd) m = (For cmd 0, m1)"
    by (simp add: access_defs m1_def)
  have r1: "running (app m1)" using run by (simp add: m1_def)
  from len have "length (drop 40 syss) = 2" by simp
  then obtain s41 s42 where d: "drop 40 syss = [s41, s42]" using two_steps by blast
  have t: "length (take 40 syss) = 40" using len by simp
  define m2 where "m2 = m1\<lparr>trace := trace m1 @ sleep_increments 40\<rparr>"
  have l: "network_worker_steps wld (take 40 syss) (For cmd 0, m1) = (For cmd 40, m2)"
    using network_sleep_loop [OF r1, of 0 "take 40 syss" wld cmd] t by (simp add: m2_def)
  have e: "network_worker_steps wld [s41, s42] (For cmd 40, m2) =
      (Body cmd, m2\<lparr>trace := trace m2 @ [LoadRunning]\<rparr>)"
    using r1 by (simp add: access_defs m2_def)
  have "network_worker_steps wld (sys # syss) (Body cmd, m) =
      network_worker_steps wld (take 40 syss @ drop 40 syss) (For cmd 0, m1)"
    using b by simp
  also have "\<dots> = network_worker_steps wld [s41, s42] (For cmd 40, m2)"
    unfolding network_worker_steps_append l d ..
  also note e
  finally show ?thesis by (simp add: m2_def m1_def)
qed


lemma serial_cycle:
  assumes run: "running (app m)" and len: "length syss = 42"
  shows "serial_worker_steps wld (sys # syss) (Body cmd, m) =
     (Body cmd,
      m\<lparr>app := (app m)\<lparr>serial := (if sys cmd = 0 then Ok else Fail)\<rparr>,
        trace := trace m @ [System cmd (sys cmd), StoreSerial (if sys cmd = 0 then Ok else Fail)]
                 @ sleep_increments 40 @ [LoadRunning]\<rparr>)"
proof -
  define m1 where "m1 = m\<lparr>app := (app m)\<lparr>serial := (if sys cmd = 0 then Ok else Fail)\<rparr>,
        trace := trace m @ [System cmd (sys cmd), StoreSerial (if sys cmd = 0 then Ok else Fail)]\<rparr>"
  have b: "serial_worker_step wld sys (Body cmd) m = (For cmd 0, m1)"
    by (simp add: access_defs m1_def)
  have r1: "running (app m1)" using run by (simp add: m1_def)
  from len have "length (drop 40 syss) = 2" by simp
  then obtain s41 s42 where d: "drop 40 syss = [s41, s42]" using two_steps by blast
  have t: "length (take 40 syss) = 40" using len by simp
  define m2 where "m2 = m1\<lparr>trace := trace m1 @ sleep_increments 40\<rparr>"
  have l: "serial_worker_steps wld (take 40 syss) (For cmd 0, m1) = (For cmd 40, m2)"
    using serial_sleep_loop [OF r1, of 0 "take 40 syss" wld cmd] t by (simp add: m2_def)
  have e: "serial_worker_steps wld [s41, s42] (For cmd 40, m2) =
      (Body cmd, m2\<lparr>trace := trace m2 @ [LoadRunning]\<rparr>)"
    using r1 by (simp add: access_defs m2_def)
  have "serial_worker_steps wld (sys # syss) (Body cmd, m) =
      serial_worker_steps wld (take 40 syss @ drop 40 syss) (For cmd 0, m1)"
    using b by simp
  also have "\<dots> = serial_worker_steps wld [s41, s42] (For cmd 40, m2)"
    unfolding serial_worker_steps_append l d ..
  also note e
  finally show ?thesis by (simp add: m2_def m1_def)
qed

subsection \<open>After the running flag is cleared\<close>

lemma rank_0: "rank pc = 0 \<longleftrightarrow> pc = Exited"
  by (cases pc) simp_all

lemma events_of_append [simp]: "events_of th (xs @ ys) = events_of th xs @ events_of th ys"
  by (simp add: events_of_def)

lemma events_of_tag [simp]:
  "events_of th (map (Pair th') evs) = (if th = th' then evs else [])"
  by (induction evs) (auto simp: events_of_def)

lemma invocations_append [simp]:
  "invocations th (xs @ ys) = invocations th xs + invocations th ys"
  by (simp add: invocations_def)

lemma sleeps_append [simp]: "sleeps th (xs @ ys) = sleeps th xs + sleeps th ys"
  by (simp add: sleeps_def)

lemma network_step_stopped:
  assumes "\<not> running a"
    and "network_worker_step wld sys pc \<lparr>app = a, trace = []\<rparr> = (pc', m')"
  shows "\<not> running (app m') \<and> rank pc' \<le> rank pc - 1
         \<and> length (filter is_invocation (trace m')) + in_flight pc' \<le> in_flight pc
         \<and> filter is_sleep (trace m') = []"
  using assms by (cases pc) (auto simp: access_defs in_flight_def Let_def split: if_splits)

lemma serial_step_stopped:
  assumes "\<not> running a"
    and "serial_worker_step wld sys pc \<lparr>app = a, trace = []\<rparr> = (pc', m')"
  shows "\<not> running (app m') \<and> rank pc' \<le> rank pc - 1
         \<and> length (filter is_invocation (trace m')) + in_flight pc' \<le> in_flight pc
         \<and> filter is_sleep (trace m') = []"
  using assms by (cases pc) (auto simp: access_defs in_flight_def Let_def split: if_splits)

lemma ui_timer_cb_app: "ui_timer_cb fm wd m = (r, m') \<Longrightarrow> app m' = app m"
  by (auto simp: ui_timer_cb_def make_status_line_def draw_def network_load_def serial_load_def
      Let_def split: prod.splits)

lemma step_stopped:
  assumes "\<not> running (shared c)" and "step wld fm a c = (evs, c')"
  shows "\<not> running (shared c')
    \<and> stopped_inv NetworkThread (net_pc c) (net_pc c') (steps_of NetworkThread [a]) evs
    \<and> stopped_inv SerialThread (ser_pc c) (ser_pc c') (steps_of SerialThread [a]) evs"
proof (cases a)
  case (NetworkStep sys)
  obtain pc' m' where s: "network_worker_step wld sys (net_pc c) \<lparr>app = shared c, trace = []\<rparr> = (pc', m')"
    by (cases "network_worker_step wld sys (net_pc c) \<lparr>app = shared c, trace = []\<rparr>")
  from network_step_stopped [OF assms(1) s] assms(2) NetworkStep s show ?thesis
    by (auto simp: stopped_inv_def invocations_def sleeps_def)
next
  case (SerialStep sys)
  obtain pc' m' where s: "serial_worker_step wld sys (ser_pc c) \<lparr>app = shared c, trace = []\<rparr> = (pc', m')"
    by (cases "serial_worker_step wld sys (ser_pc c) \<lparr>app = shared c, trace = []\<rparr>")
  from serial_step_stopped [OF assms(1) s] assms(2) SerialStep s show ?thesis
    by (auto simp: stopped_inv_def invocations_def sleeps_def)
next
  case UiTimer
  obtain r m' where s: "ui_timer_cb fm main_panel \<lparr>app = shared c, trace = []\<rparr> = (r, m')"
    by (cases "ui_timer_cb fm main_panel \<lparr>app = shared c, trace = []\<rparr>")
  from ui_timer_cb_app [OF s] assms UiTimer s show ?thesis
    by (cases r) (auto simp: stopped_inv_def invocations_def sleeps_def)
next
  case ExitRequest
  with assms show ?thesis
    by (auto simp: stopped_inv_def invocations_def sleeps_def events_of_def request_exit_def
        running_store_def)
qed

lemma stopped_inv_trans:
  "stopped_inv th pc pc' n evs \<Longrightarrow> stopped_inv th pc' pc'' n' evs' \<Longrightarrow>
   stopped_inv th pc pc'' (n + n') (evs @ evs')"
  by (auto simp: stopped_inv_def)

lemma steps_of_Cons: "steps_of th (a # as) = steps_of th [a] + steps_of th as"
  by (cases a) simp_all

lemma exec_stopped:
  assumes "\<not> running (shared c)" and "exec wld fm acts c = (evs, c')"
  shows "\<not> running (shared c')
    \<and> stopped_inv NetworkThread (net_pc c) (net_pc c') (steps_of NetworkThread acts) evs
    \<and> stopped_inv SerialThread (ser_pc c) (ser_pc c') (steps_of SerialThread acts) evs"
  using assms
proof (induction acts arbitrary: c evs)
  case Nil
  then show ?case by (simp add: stopped_inv_def invocations_def sleeps_def events_of_def)
next
  case (Cons a acts)
  obtain evs1 c1 where s: "step wld fm a c = (evs1, c1)" by (cases "step wld fm a c")
  obtain evs2 c2 where e2: "exec wld fm acts c1 = (evs2, c2)" by (cases "exec wld fm acts c1")
  from Cons.prems(2) s e2 have eq: "evs = evs1 @ evs2" and "c2 = c'" by simp_all
  with e2 have e: "exec wld fm acts c1 = (evs2, c')" by simp
  note one = step_stopped [OF Cons.prems(1) s]
  note rest = Cons.IH [OF one [THEN conjunct1] e]
  from one rest show ?case
    unfolding eq steps_of_Cons [of _ a acts]
    by (blast intro: stopped_inv_trans)
qed

text \<open>
  Claim C3. In every iteration of a worker with a resolved executable, the worker
  invokes the command and stores into its own cell Ok if \<^verbatim>\<open>std::system\<close> returned
  exactly zero and Fail for every other return value, so also for \<open>-1\<close>, the failure to
  launch. Whatever the result, the loop goes on: the worker enters the sleep loop and,
  the running flag still set, is back at the invocation after the 40 sleep steps, the
  step that leaves the sleep loop and the loop condition.
\<close>

theorem probe_result_recorded:
  "network_worker_step wld sys (Body cmd) m =
     (For cmd 0,
      m\<lparr>app := (app m)\<lparr>network := (if sys cmd = 0 then Ok else Fail)\<rparr>,
        trace := trace m @
          [System cmd (sys cmd), StoreNetwork (if sys cmd = 0 then Ok else Fail)]\<rparr>)
   \<and> serial_worker_step wld sys (Body cmd) m =
     (For cmd 0,
      m\<lparr>app := (app m)\<lparr>serial := (if sys cmd = 0 then Ok else Fail)\<rparr>,
        trace := trace m @
          [System cmd (sys cmd), StoreSerial (if sys cmd = 0 then Ok else Fail)]\<rparr>)
   \<and> network (app (snd (network_worker_step wld (always (- 1)) (Body cmd) m))) = Fail
   \<and> serial (app (snd (serial_worker_step wld (always (- 1)) (Body cmd) m))) = Fail
   \<and> (running (app m) \<and> length syss = 42 \<longrightarrow>
         fst (network_worker_steps wld (sys # syss) (Body cmd, m)) = Body cmd
       \<and> fst (serial_worker_steps wld (sys # syss) (Body cmd, m)) = Body cmd)"
proof -
  have a: "network_worker_step wld sys (Body cmd) m =
     (For cmd 0,
      m\<lparr>app := (app m)\<lparr>network := (if sys cmd = 0 then Ok else Fail)\<rparr>,
        trace := trace m @
          [System cmd (sys cmd), StoreNetwork (if sys cmd = 0 then Ok else Fail)]\<rparr>)" for sys
    by (simp add: access_defs)
  have b: "serial_worker_step wld sys (Body cmd) m =
     (For cmd 0,
      m\<lparr>app := (app m)\<lparr>serial := (if sys cmd = 0 then Ok else Fail)\<rparr>,
        trace := trace m @
          [System cmd (sys cmd), StoreSerial (if sys cmd = 0 then Ok else Fail)]\<rparr>)" for sys
    by (simp add: access_defs)
  have c: "network (app (snd (network_worker_step wld (always (- 1)) (Body cmd) m))) = Fail"
    unfolding a by (simp add: always_def)
  have d: "serial (app (snd (serial_worker_step wld (always (- 1)) (Body cmd) m))) = Fail"
    unfolding b by (simp add: always_def)
  have e: "fst (network_worker_steps wld (sys # syss) (Body cmd, m)) = Body cmd
       \<and> fst (serial_worker_steps wld (sys # syss) (Body cmd, m)) = Body cmd"
    if "running (app m) \<and> length syss = 42"
    using that network_cycle [of m syss wld sys cmd] serial_cycle [of m syss wld sys cmd]
    by simp
  from a b c d e show ?thesis by blast
qed

theorem probe_result_recorded_witness:
  "running (app \<lparr>app = AppState_init, trace = []\<rparr>)
   \<and> length (replicate 42 (always 0)) = 42
   \<and> fst (network_worker_steps world_both (always (- 1) # replicate 42 (always 0))
            (Body ''probe'', \<lparr>app = AppState_init, trace = []\<rparr>)) = Body ''probe''
   \<and> fst (serial_worker_steps world_both (always (- 1) # replicate 42 (always 0))
            (Body ''probe'', \<lparr>app = AppState_init, trace = []\<rparr>)) = Body ''probe''"
proof -
  have h: "running (app \<lparr>app = AppState_init, trace = []\<rparr>)
           \<and> length (replicate 42 (always 0)) = 42"
    by (simp add: AppState_init_def)
  from probe_result_recorded
    [of world_both "always (- 1)" "''probe''" "\<lparr>app = AppState_init, trace = []\<rparr>"
        "replicate 42 (always 0)",
      THEN conjunct2, THEN conjunct2, THEN conjunct2, THEN conjunct2, THEN mp, OF h] h
  show ?thesis by (intro conjI) simp_all
qed

text \<open>
  Claim C7, as amended. The sleep between two invocations is 40 increments of 50 ms
  (2000 ms), each preceded by a load of the running flag. With the flag false, a
  worker anywhere in the sleep loop leaves it without sleeping and returns at the loop
  condition, two steps in all. In every execution that starts with the flag false, the
  flag stays false, no worker sleeps again, a worker performs no probe invocation except
  the one it has in flight (it had passed the loop condition before), and a worker has
  returned once it has made three steps.
\<close>

theorem stop_request_honoured:
  "(running (app m) \<and> length syss = 40 \<longrightarrow>
      network_worker_steps wld syss (For cmd 0, m)
        = (For cmd 40, m\<lparr>trace := trace m @ sleep_increments 40\<rparr>)
    \<and> serial_worker_steps wld syss (For cmd 0, m)
        = (For cmd 40, m\<lparr>trace := trace m @ sleep_increments 40\<rparr>))
   \<and> slept (sleep_increments 40) = 2000
   \<and> (\<not> running (app m) \<longrightarrow>
      network_worker_steps wld [sys, sys'] (For cmd i, m)
        = (Exited, m\<lparr>trace := trace m @ (if i < 40 then [LoadRunning] else []) @ [LoadRunning]\<rparr>)
    \<and> serial_worker_steps wld [sys, sys'] (For cmd i, m)
        = (Exited, m\<lparr>trace := trace m @ (if i < 40 then [LoadRunning] else []) @ [LoadRunning]\<rparr>))
   \<and> (\<not> running (shared c) \<and> exec wld fm acts c = (evs, c') \<longrightarrow>
        \<not> running (shared c')
      \<and> sleeps NetworkThread evs = 0 \<and> sleeps SerialThread evs = 0
      \<and> invocations NetworkThread evs \<le> in_flight (net_pc c)
      \<and> invocations SerialThread evs \<le> in_flight (ser_pc c)
      \<and> (3 \<le> steps_of NetworkThread acts \<longrightarrow> net_pc c' = Exited)
      \<and> (3 \<le> steps_of SerialThread acts \<longrightarrow> ser_pc c' = Exited))"
proof -
  have a: "network_worker_steps wld syss (For cmd 0, m)
        = (For cmd 40, m\<lparr>trace := trace m @ sleep_increments 40\<rparr>)
    \<and> serial_worker_steps wld syss (For cmd 0, m)
        = (For cmd 40, m\<lparr>trace := trace m @ sleep_increments 40\<rparr>)"
    if "running (app m) \<and> length syss = 40"
    using that network_sleep_loop [of m 0 syss wld cmd] serial_sleep_loop [of m 0 syss wld cmd]
    by simp
  have b: "slept (sleep_increments 40) = 2000"
    by (simp add: slept_sleep_increments)
  have c: "network_worker_steps wld [sys, sys'] (For cmd i, m)
        = (Exited, m\<lparr>trace := trace m @ (if i < 40 then [LoadRunning] else []) @ [LoadRunning]\<rparr>)
    \<and> serial_worker_steps wld [sys, sys'] (For cmd i, m)
        = (Exited, m\<lparr>trace := trace m @ (if i < 40 then [LoadRunning] else []) @ [LoadRunning]\<rparr>)"
    if "\<not> running (app m)"
    using that by (simp add: access_defs)
  have d: "\<not> running (shared c')
      \<and> sleeps NetworkThread evs = 0 \<and> sleeps SerialThread evs = 0
      \<and> invocations NetworkThread evs \<le> in_flight (net_pc c)
      \<and> invocations SerialThread evs \<le> in_flight (ser_pc c)
      \<and> (3 \<le> steps_of NetworkThread acts \<longrightarrow> net_pc c' = Exited)
      \<and> (3 \<le> steps_of SerialThread acts \<longrightarrow> ser_pc c' = Exited)"
    if h: "\<not> running (shared c) \<and> exec wld fm acts c = (evs, c')"
  proof -
    from h exec_stopped [of c wld fm acts evs c']
    have r: "\<not> running (shared c')"
      and n: "stopped_inv NetworkThread (net_pc c) (net_pc c') (steps_of NetworkThread acts) evs"
      and s: "stopped_inv SerialThread (ser_pc c) (ser_pc c') (steps_of SerialThread acts) evs"
      by simp_all
    have bound: "rank pc \<le> 3" for pc by (cases pc) simp_all
    have "net_pc c' = Exited" if "3 \<le> steps_of NetworkThread acts"
      using n that bound [of "net_pc c"] by (simp add: stopped_inv_def rank_0 [symmetric])
    moreover have "ser_pc c' = Exited" if "3 \<le> steps_of SerialThread acts"
      using s that bound [of "ser_pc c"] by (simp add: stopped_inv_def rank_0 [symmetric])
    ultimately show ?thesis using r n s by (simp add: stopped_inv_def)
  qed
  from a b c d show ?thesis by blast
qed

theorem stop_request_honoured_witness:
  "running (app \<lparr>app = AppState_init, trace = []\<rparr>)
   \<and> length (replicate 40 (always 0)) = 40
   \<and> network_worker_steps world_both (replicate 40 (always 0))
        (For ''probe'' 0, \<lparr>app = AppState_init, trace = []\<rparr>)
       = (For ''probe'' 40, \<lparr>app = AppState_init, trace = sleep_increments 40\<rparr>)
   \<and> \<not> running (app \<lparr>app = AppState_init\<lparr>running := False\<rparr>, trace = []\<rparr>)
   \<and> network_worker_steps world_both [always 0, always 0]
        (For ''probe'' 7, \<lparr>app = AppState_init\<lparr>running := False\<rparr>, trace = []\<rparr>)
       = (Exited, \<lparr>app = AppState_init\<lparr>running := False\<rparr>,
                   trace = [LoadRunning, LoadRunning]\<rparr>)
   \<and> \<not> running (shared (snd (exec world_both no_text
          [NetworkStep (always 0), NetworkStep (always 0), SerialStep (always 0), ExitRequest]
          config_init)))
   \<and> 3 \<le> steps_of NetworkThread
          [NetworkStep (always 0), SerialStep (always 0), NetworkStep (always 0),
           SerialStep (always 0), NetworkStep (always 0), SerialStep (always 0)]
   \<and> 3 \<le> steps_of SerialThread
          [NetworkStep (always 0), SerialStep (always 0), NetworkStep (always 0),
           SerialStep (always 0), NetworkStep (always 0), SerialStep (always 0)]
   \<and> net_pc (snd (exec world_both no_text
          [NetworkStep (always 0), SerialStep (always 0), NetworkStep (always 0),
           SerialStep (always 0), NetworkStep (always 0), SerialStep (always 0)]
          (snd (exec world_both no_text
             [NetworkStep (always 0), NetworkStep (always 0), SerialStep (always 0),
              ExitRequest]
             config_init)))) = Exited
   \<and> ser_pc (snd (exec world_both no_text
          [NetworkStep (always 0), SerialStep (always 0), NetworkStep (always 0),
           SerialStep (always 0), NetworkStep (always 0), SerialStep (always 0)]
          (snd (exec world_both no_text
             [NetworkStep (always 0), NetworkStep (always 0), SerialStep (always 0),
              ExitRequest]
             config_init)))) = Exited
   \<and> sleeps NetworkThread (fst (exec world_both no_text
          [NetworkStep (always 0), SerialStep (always 0), NetworkStep (always 0),
           SerialStep (always 0), NetworkStep (always 0), SerialStep (always 0)]
          (snd (exec world_both no_text
             [NetworkStep (always 0), NetworkStep (always 0), SerialStep (always 0),
              ExitRequest]
             config_init)))) = 0"
proof -
  let ?m0 = "\<lparr>app = AppState_init, trace = []\<rparr>"
  let ?m1 = "\<lparr>app = AppState_init\<lparr>running := False\<rparr>, trace = []\<rparr>"
  let ?before = "[NetworkStep (always 0), NetworkStep (always 0), SerialStep (always 0),
    ExitRequest]"
  let ?after = "[NetworkStep (always 0), SerialStep (always 0), NetworkStep (always 0),
    SerialStep (always 0), NetworkStep (always 0), SerialStep (always 0)]"
  let ?c = "snd (exec world_both no_text ?before config_init)"
  let ?r = "exec world_both no_text ?after ?c"
  have h0: "running (app ?m0) \<and> length (replicate 40 (always 0)) = 40"
    by (simp add: AppState_init_def)
  have h1: "\<not> running (app ?m1)" by simp
  have h2: "\<not> running (shared ?c)" by code_simp
  have h3: "3 \<le> steps_of NetworkThread ?after" by simp
  have h4: "3 \<le> steps_of SerialThread ?after" by simp
  have h2': "\<not> running (shared ?c) \<and> ?r = (fst ?r, snd ?r)"
    using h2 by simp
  note a = stop_request_honoured
    [where m = ?m0 and syss = "replicate 40 (always 0)" and wld = world_both
       and cmd = "''probe''", THEN conjunct1, THEN mp, OF h0, THEN conjunct1]
  note b = stop_request_honoured
    [where m = ?m1 and wld = world_both and cmd = "''probe''" and i = 7
       and sys = "always 0" and sys' = "always 0",
     THEN conjunct2, THEN conjunct2, THEN conjunct1, THEN mp, OF h1, THEN conjunct1]
  note d = stop_request_honoured
    [where c = ?c and wld = world_both and fm = no_text and acts = ?after
       and evs = "fst ?r" and c' = "snd ?r",
     THEN conjunct2, THEN conjunct2, THEN conjunct2, THEN mp, OF h2']
  have e: "net_pc (snd ?r) = Exited"
    using d h3 by blast
  have f: "ser_pc (snd ?r) = Exited"
    using d h4 by blast
  have s: "sleeps NetworkThread (fst ?r) = 0"
    using d by blast
  from a have a': "network_worker_steps world_both (replicate 40 (always 0)) (For ''probe'' 0, ?m0)
       = (For ''probe'' 40, \<lparr>app = AppState_init, trace = sleep_increments 40\<rparr>)"
    by simp
  from b have b': "network_worker_steps world_both [always 0, always 0] (For ''probe'' 7, ?m1)
       = (Exited, \<lparr>app = AppState_init\<lparr>running := False\<rparr>,
                   trace = [LoadRunning, LoadRunning]\<rparr>)"
    by simp
  from h0 a' h1 b' h2 h3 h4 e f s show ?thesis by (intro conjI) simp_all
qed

text \<open>
  Claim C7 as stated fails when the stop request falls between the loop condition of
  line 190 and the invocation of line 191: the network worker has loaded the flag as
  true, the exit request clears it, and the worker still starts a probe invocation
  although the flag is false and stays false.
\<close>

theorem stop_after_loop_condition:
  "\<not> running (shared (snd (exec world_both no_text
        [NetworkStep (always 0), NetworkStep (always 0), ExitRequest] config_init)))
   \<and> fst (exec world_both no_text [NetworkStep (always 0)]
        (snd (exec world_both no_text
           [NetworkStep (always 0), NetworkStep (always 0), ExitRequest] config_init)))
     = [(NetworkThread, System (quiet_cmd ''/opt/monitor/test_network.sh'') 0),
        (NetworkThread, StoreNetwork Ok)]
   \<and> invocations NetworkThread (fst (exec world_both no_text [NetworkStep (always 0)]
        (snd (exec world_both no_text
           [NetworkStep (always 0), NetworkStep (always 0), ExitRequest] config_init)))) = 1"
  by code_simp

section \<open>The write of \<^verbatim>\<open>network_worker\<close> to the serial cell\<close>

text \<open>
  The serial worker never changes the network cell, and the network worker changes the
  serial cell at one place only: at its entry, when its script is not found.
\<close>

lemma serial_worker_leaves_network_cell:
  "network (app (snd (serial_worker_step wld sys pc m))) = network (app m)"
  by (cases pc) (simp_all add: access_defs Let_def split_beta)

lemma network_worker_leaves_serial_cell:
  "pc \<noteq> Entry \<or> resolve_path wld ''test_network.sh'' \<noteq> [] \<Longrightarrow>
   serial (app (snd (network_worker_step wld sys pc m))) = serial (app m)"
  by (cases pc) (auto simp: access_defs Let_def split_beta)

text \<open>
  Claim C1 says that the network worker never stores to the serial cell. On a machine
  without an executable \<^verbatim>\<open>test_network.sh\<close>, line 183 of \<^verbatim>\<open>network_worker\<close> stores
  Unknown into the serial cell (where \<^verbatim>\<open>serial_worker\<close>, line 201, stores into its
  own): here the serial cell held Ok and holds Unknown after the step.
\<close>

theorem network_worker_stores_serial_cell:
  "resolve_path world_serial_only ''test_network.sh'' = []
   \<and> network_worker_step world_serial_only (always 0) Entry
        \<lparr>app = \<lparr>network = Unknown, serial = Ok, running = True\<rparr>, trace = []\<rparr>
     = (Exited,
        \<lparr>app = \<lparr>network = Unknown, serial = Unknown, running = True\<rparr>,
         trace = [StoreSerial Unknown]\<rparr>)"
  by code_simp

text \<open>
  Claim C2 says that a probe whose executable is missing leaves the other probe's cell
  unaffected. With only \<^verbatim>\<open>test_serial.sh\<close> installed, the serial worker has recorded
  Ok and the window shows \<^verbatim>\<open>serial=OK\<close>; then the network worker starts, finds no
  executable and, by the store of line 183, sets the serial cell to Unknown: the window
  shows \<^verbatim>\<open>serial=unknown\<close> while the serial worker is in its sleep loop, its last
  result Ok.
\<close>

theorem missing_network_probe_clobbers_serial:
  "shared (snd (exec world_serial_only no_text
      [SerialStep (always 0), SerialStep (always 0), SerialStep (always 0), UiTimer]
      config_init))
     = \<lparr>network = Unknown, serial = Ok, running = True\<rparr>
   \<and> status_label (snd (exec world_serial_only no_text
      [SerialStep (always 0), SerialStep (always 0), SerialStep (always 0), UiTimer]
      config_init))
     = ''network=unknown, serial=OK''
   \<and> fst (exec world_serial_only no_text [NetworkStep (always 0)]
        (snd (exec world_serial_only no_text
          [SerialStep (always 0), SerialStep (always 0), SerialStep (always 0), UiTimer]
          config_init)))
     = [(NetworkThread, StoreSerial Unknown)]
   \<and> shared (snd (exec world_serial_only no_text
      [SerialStep (always 0), SerialStep (always 0), SerialStep (always 0), UiTimer,
       NetworkStep (always 0), UiTimer]
      config_init))
     = \<lparr>network = Unknown, serial = Unknown, running = True\<rparr>
   \<and> status_label (snd (exec world_serial_only no_text
      [SerialStep (always 0), SerialStep (always 0), SerialStep (always 0), UiTimer,
       NetworkStep (always 0), UiTimer]
      config_init))
     = ''network=unknown, serial=unknown''
   \<and> ser_pc (snd (exec world_serial_only no_text
      [SerialStep (always 0), SerialStep (always 0), SerialStep (always 0), UiTimer,
       NetworkStep (always 0), UiTimer]
      config_init))
     = For (quiet_cmd ''/opt/monitor/test_serial.sh'') 0"
  by code_simp

end
